theory Spec2Isabelle
  imports Complex_Main "HOL-Library.Multiset"
begin


section \<open>JavaScript values\<close>

text \<open>
  The values that \<^verbatim>\<open>JSON.parse\<close> and the HTTP client hand to the page, as far as the
  page inspects them. A field that is absent from an object reads as \<open>JUndefined\<close>.
  Parsed JSON holds no NaN, so a number is falsy exactly when it is zero.
\<close>

datatype jsval = JUndefined | JNull | JBool bool | JNum real | JStr string

fun truthy :: "jsval \<Rightarrow> bool" where
  "truthy JUndefined = False"
| "truthy JNull = False"
| "truthy (JBool b) = b"
| "truthy (JNum n) = (n \<noteq> 0)"
| "truthy (JStr s) = (s \<noteq> [])"

text \<open>The operator \<^verbatim>\<open>a || b\<close>: the left operand when it is truthy, the right one otherwise.\<close>

definition js_or :: "jsval \<Rightarrow> jsval \<Rightarrow> jsval" where
  "js_or a b = (if truthy a then a else b)"

section \<open>Flow Aggregator (pages/LiveMonitoring.jsx)\<close>

text \<open>
  One record type stands for the three kinds of object the page handles: a decoded push
  message (\<^verbatim>\<open>data\<close>), a history record (\<^verbatim>\<open>h\<close>) and an entry of the \<^verbatim>\<open>flows\<close>
  state. Its fields are the properties the page reads or writes.
\<close>

record flow =
  timestamp :: jsval
  src_ip :: jsval
  dst_ip :: jsval
  src_port :: jsval
  dst_port :: jsval
  protocol :: jsval
  is_attack :: jsval
  attack_type :: jsval
  severity :: jsval
  confidence :: jsval
  binary_confidence :: jsval
  created_at :: jsval

text \<open>
  \<^verbatim>\<open>useState({ total: 0, attacks: 0 })\<close>. The counters are JavaScript numbers that only
  ever hold array lengths and increments by one; they are modelled as naturals.
\<close>

record stats =
  total_flows :: nat
  attacks :: nat

record interface_info =
  info_interface :: string
  available :: "string list"
  info_exists :: jsval
  info_active_flows :: nat

record sniffer_stats =
  packet_count :: nat
  processed_count :: nat
  last_error :: string

text \<open>
  What the page shows in an \<^verbatim>\<open>alert\<close>: the kind of alert and the variable part of its
  text.
\<close>

datatype alert =
    StartWarning string
  | StartFailed string
  | StopFailed string
  | InterfaceChanged string
  | InterfaceFailed string

datatype request = GetHealth | GetHistory | PostStart | PostStop | PostInterface string

text \<open>
  The state of the \<^verbatim>\<open>LiveMonitoring\<close> component (its \<^verbatim>\<open>useState\<close> cells, lines 6-12)
  followed by what it does to the outside: the alerts shown, the HTTP requests issued and
  the number of calls of the channel's \<^verbatim>\<open>connect\<close>, each in order of occurrence.
\<close>

record page =
  flows :: "flow list"
  isMonitoring :: bool
  stats :: stats
  interfaceInfo :: "interface_info option"
  snifferStats :: "sniffer_stats option"
  selectedInterface :: string
  alerts :: "alert list"
  requests :: "request list"
  connects :: nat

text \<open>
  Lines 21-24: \<^verbatim>\<open>{...data, confidence: data.confidence || data.binary_confidence || 0}\<close>.
\<close>

definition flowData :: "flow \<Rightarrow> flow" where
  "flowData d = d\<lparr>confidence := js_or (js_or (confidence d) (binary_confidence d)) (JNum 0)\<rparr>"

text \<open>
  The callback given to \<^verbatim>\<open>subscribe\<close> (lines 17-36), run once per push message: both
  state updates are functional updates of the previous state.
\<close>

definition applyPush :: "flow \<Rightarrow> page \<Rightarrow> page" where
  "applyPush d s =
     s\<lparr>flows := take 200 (flowData d # flows s),
       stats := \<lparr>total_flows = total_flows (stats s) + 1,
                 attacks = attacks (stats s) + (if truthy (is_attack d) then 1 else 0)\<rparr>\<rparr>"

text \<open>Push messages applied in arrival order.\<close>

definition applyPushes :: "flow list \<Rightarrow> page \<Rightarrow> page" where
  "applyPushes ds s = fold applyPush ds s"

text \<open>
  The time value of \<^verbatim>\<open>new Date(v)\<close>, \<open>None\<close> for the Invalid Date (NaN). Parsing a
  string is the browser's \<^verbatim>\<open>Date.parse\<close>, taken as the parameter \<open>parse\<close>; any other
  value is converted to a number, truncated towards zero and clipped to the range of
  time values.
\<close>

definition timeClip :: "real \<Rightarrow> int option" where
  "timeClip n = (if 8640000000000000 < \<bar>n\<bar> then None
                 else Some (if 0 \<le> n then \<lfloor>n\<rfloor> else \<lceil>n\<rceil>))"

fun dateValue :: "(string \<Rightarrow> int option) \<Rightarrow> jsval \<Rightarrow> int option" where
  "dateValue parse JUndefined = None"
| "dateValue parse JNull = Some 0"
| "dateValue parse (JBool b) = Some (if b then 1 else 0)"
| "dateValue parse (JNum n) = timeClip n"
| "dateValue parse (JStr s) = parse s"

text \<open>Line 201: the date the comparator reads off a flow, \<^verbatim>\<open>new Date(a.timestamp || a.created_at)\<close>.\<close>

definition flowDate :: "(string \<Rightarrow> int option) \<Rightarrow> flow \<Rightarrow> int option" where
  "flowDate parse a = dateValue parse (js_or (timestamp a) (created_at a))"

text \<open>
  The comparator of line 201, \<^verbatim>\<open>(a, b) => new Date(b...) - new Date(a...)\<close>. A
  difference with an Invalid Date is NaN, which \<^verbatim>\<open>sort\<close> reads as \<open>0\<close>.
\<close>

definition newestFirst :: "(string \<Rightarrow> int option) \<Rightarrow> flow \<Rightarrow> flow \<Rightarrow> int" where
  "newestFirst parse a b =
     (case flowDate parse b of
        None \<Rightarrow> 0
      | Some tb \<Rightarrow> (case flowDate parse a of None \<Rightarrow> 0 | Some ta \<Rightarrow> tb - ta))"

text \<open>
  A stable sort by a comparator, by insertion: an element goes before the first one it
  does not compare greater than.
\<close>

fun insertBy :: "('a \<Rightarrow> 'a \<Rightarrow> int) \<Rightarrow> 'a \<Rightarrow> 'a list \<Rightarrow> 'a list" where
  "insertBy c x [] = [x]"
| "insertBy c x (y # ys) = (if c x y \<le> 0 then x # y # ys else y # insertBy c x ys)"

definition sortBy :: "('a \<Rightarrow> 'a \<Rightarrow> int) \<Rightarrow> 'a list \<Rightarrow> 'a list" where
  "sortBy c xs = foldr (insertBy c) xs []"

text \<open>
  A comparator that is consistent on the elements of a list, as the language defines
  it: comparing equal is reflexive, symmetric and transitive, and comparing less and
  comparing greater are transitive.
\<close>

definition consistentOn :: "('a \<Rightarrow> 'a \<Rightarrow> int) \<Rightarrow> 'a list \<Rightarrow> bool" where
  "consistentOn c xs =
     (\<forall>x \<in> set xs. \<forall>y \<in> set xs. \<forall>z \<in> set xs.
        c x x = 0
        \<and> (c x y = 0 \<longrightarrow> c y x = 0)
        \<and> (c x y = 0 \<and> c y z = 0 \<longrightarrow> c x z = 0)
        \<and> (c x y < 0 \<and> c y z < 0 \<longrightarrow> c x z < 0)
        \<and> (0 < c x y \<and> 0 < c y z \<longrightarrow> 0 < c x z))"

text \<open>
  What the page takes from the browser: \<^verbatim>\<open>Date.parse\<close>, and the order in which its
  \<^verbatim>\<open>Array.prototype.sort\<close> leaves a list when the comparator is not consistent, which
  the language leaves to the implementation.
\<close>

record browser =
  dateParse :: "string \<Rightarrow> int option"
  sortOrder :: "(flow \<Rightarrow> flow \<Rightarrow> int) \<Rightarrow> flow list \<Rightarrow> flow list"

text \<open>
  \<^verbatim>\<open>Array.prototype.sort\<close> with a comparator. With a consistent comparator the sort
  is the stable one; otherwise the order is the browser's.
\<close>

definition arraySort :: "browser \<Rightarrow> (flow \<Rightarrow> flow \<Rightarrow> int) \<Rightarrow> flow list \<Rightarrow> flow list" where
  "arraySort br c xs = (if consistentOn c xs then sortBy c xs else sortOrder br c xs)"

text \<open>Lines 188-199: a history record in the shape of a flow.\<close>

definition fromHistory :: "flow \<Rightarrow> flow" where
  "fromHistory h =
     \<lparr>timestamp = js_or (created_at h) (timestamp h),
      src_ip = src_ip h,
      dst_ip = dst_ip h,
      src_port = src_port h,
      dst_port = dst_port h,
      protocol = protocol h,
      is_attack = is_attack h,
      attack_type = attack_type h,
      severity = severity h,
      confidence = js_or (js_or (binary_confidence h) (confidence h)) (JNum 0),
      binary_confidence = JUndefined,
      created_at = JUndefined\<rparr>"

text \<open>
  Lines 176-201 of \<^verbatim>\<open>refreshStats\<close>: what the page does with the history once the
  request has returned it.
\<close>

definition applySnapshot :: "browser \<Rightarrow> flow list \<Rightarrow> page \<Rightarrow> page" where
  "applySnapshot br history s =
     s\<lparr>stats := \<lparr>total_flows = length history,
                 attacks = length (filter (\<lambda>h. truthy (is_attack h)) history)\<rparr>,
       flows := take 200 (arraySort br (newestFirst (dateParse br)) (map fromHistory history))\<rparr>"

text \<open>The two ways the aggregator's state changes, and the state of a freshly mounted page.\<close>

datatype update = Push flow | Snapshot "flow list"

fun applyUpdate :: "browser \<Rightarrow> update \<Rightarrow> page \<Rightarrow> page" where
  "applyUpdate br (Push d) s = applyPush d s"
| "applyUpdate br (Snapshot h) s = applySnapshot br h s"

definition initialPage :: page where
  "initialPage =
     \<lparr>flows = [], isMonitoring = False, stats = \<lparr>total_flows = 0, attacks = 0\<rparr>,
      interfaceInfo = None, snifferStats = None, selectedInterface = [],
      alerts = [], requests = [], connects = 0\<rparr>"




text \<open>Sample messages and records, and a date parser that knows one spelling.\<close>

definition benign :: flow where
  "benign =
     \<lparr>timestamp = JNum 1, src_ip = JStr ''10.0.0.1'', dst_ip = JStr ''10.0.0.2'',
      src_port = JNum 1234, dst_port = JNum 80, protocol = JStr ''TCP'',
      is_attack = JBool False, attack_type = JNull, severity = JUndefined,
      confidence = JUndefined, binary_confidence = JNum 0.9, created_at = JUndefined\<rparr>"

definition portScan :: flow where
  "portScan =
     \<lparr>timestamp = JUndefined, src_ip = JStr ''10.0.0.9'', dst_ip = JStr ''10.0.0.2'',
      src_port = JNum 4321, dst_port = JNum 22, protocol = JStr ''TCP'',
      is_attack = JBool True, attack_type = JStr ''Port Scan'', severity = JStr ''high'',
      confidence = JNum 0.8, binary_confidence = JNum 0.7,
      created_at = JStr ''1970-01-01T00:00:05Z''\<rparr>"

definition parseSample :: "string \<Rightarrow> int option" where
  "parseSample s = (if s = ''1970-01-01T00:00:05Z'' then Some 5000 else None)"

text \<open>A browser with that parser, which leaves a list it cannot order as it is.\<close>

definition sampleBrowser :: browser where
  "sampleBrowser = \<lparr>dateParse = parseSample, sortOrder = (\<lambda>c xs. xs)\<rparr>"

section \<open>Control Orchestrator (pages/LiveMonitoring.jsx)\<close>

text \<open>
  A rejected request, as the \<^verbatim>\<open>catch\<close> blocks read it: the text shown is
  \<^verbatim>\<open>error.response?.data?.detail || error.message\<close>. An absent detail is the empty
  string.
\<close>

record api_error =
  detail :: string
  message :: string

definition errorText :: "api_error \<Rightarrow> string" where
  "errorText e = (if detail e \<noteq> [] then detail e else message e)"

text \<open>\<^verbatim>\<open>response.data\<close> of \<^verbatim>\<open>POST /health/sniffer/start\<close>; an absent message is empty.\<close>

record start_response =
  status :: string
  start_message :: string

text \<open>
  \<^verbatim>\<open>response.data\<close> of \<^verbatim>\<open>GET /health\<close>, with the defaults of lines 52-60 applied to
  the fields that are only displayed: no interface is the empty string, no list of
  interfaces the empty list, no count zero.
\<close>

record health =
  sniffer_running :: jsval
  interface :: string
  available_interfaces :: "string list"
  interface_exists :: jsval
  active_flows :: nat
  sniffer_stats :: sniffer_stats

text \<open>
  An \<^verbatim>\<open>async\<close> function is a tree of its suspension points: it ends (\<open>Done\<close>), throws,
  updates the component state and goes on, or waits for a timer or for the settlement of
  a request, where it goes on with the result (\<open>Inl\<close> a rejection, \<open>Inr\<close> the response
  data).
\<close>

datatype 'a proc =
    Done 'a
  | Throw api_error
  | Update "page \<Rightarrow> page" "'a proc"
  | Sleep nat "'a proc"
  | AwaitHealth "api_error + health \<Rightarrow> 'a proc"
  | AwaitHistory "api_error + flow list \<Rightarrow> 'a proc"
  | AwaitStart "api_error + start_response \<Rightarrow> 'a proc"
  | AwaitStop "api_error + unit \<Rightarrow> 'a proc"
  | AwaitInterface string "api_error + unit \<Rightarrow> 'a proc"

text \<open>Sequencing: \<open>andThen p f\<close> runs \<open>p\<close> and passes its value to \<open>f\<close>; a throw skips \<open>f\<close>.\<close>

primrec andThen :: "'a proc \<Rightarrow> ('a \<Rightarrow> 'b proc) \<Rightarrow> 'b proc" where
  "andThen (Done a) f = f a"
| "andThen (Throw e) f = Throw e"
| "andThen (Update u p) f = Update u (andThen p f)"
| "andThen (Sleep n p) f = Sleep n (andThen p f)"
| "andThen (AwaitHealth k) f = AwaitHealth (\<lambda>r. andThen (k r) f)"
| "andThen (AwaitHistory k) f = AwaitHistory (\<lambda>r. andThen (k r) f)"
| "andThen (AwaitStart k) f = AwaitStart (\<lambda>r. andThen (k r) f)"
| "andThen (AwaitStop k) f = AwaitStop (\<lambda>r. andThen (k r) f)"
| "andThen (AwaitInterface n k) f = AwaitInterface n (\<lambda>r. andThen (k r) f)"

text \<open>\<^verbatim>\<open>try { p } catch (error) { h(error) }\<close>.\<close>

primrec tryCatch :: "'a proc \<Rightarrow> (api_error \<Rightarrow> 'a proc) \<Rightarrow> 'a proc" where
  "tryCatch (Done a) h = Done a"
| "tryCatch (Throw e) h = h e"
| "tryCatch (Update u p) h = Update u (tryCatch p h)"
| "tryCatch (Sleep n p) h = Sleep n (tryCatch p h)"
| "tryCatch (AwaitHealth k) h = AwaitHealth (\<lambda>r. tryCatch (k r) h)"
| "tryCatch (AwaitHistory k) h = AwaitHistory (\<lambda>r. tryCatch (k r) h)"
| "tryCatch (AwaitStart k) h = AwaitStart (\<lambda>r. tryCatch (k r) h)"
| "tryCatch (AwaitStop k) h = AwaitStop (\<lambda>r. tryCatch (k r) h)"
| "tryCatch (AwaitInterface n k) h = AwaitInterface n (\<lambda>r. tryCatch (k r) h)"

text \<open>A sequence of statements.\<close>

fun block :: "unit proc list \<Rightarrow> unit proc" where
  "block [] = Done ()"
| "block (p # ps) = andThen p (\<lambda>_. block ps)"

text \<open>\<^verbatim>\<open>await\<close> of a request: the response data, or the rejection thrown.\<close>

definition settled :: "api_error + 'a \<Rightarrow> 'a proc" where
  "settled r = (case r of Inl e \<Rightarrow> Throw e | Inr v \<Rightarrow> Done v)"

definition getHealth :: "health proc" where
  "getHealth = AwaitHealth settled"

definition getHistory :: "flow list proc" where
  "getHistory = AwaitHistory settled"

definition postStart :: "start_response proc" where
  "postStart = AwaitStart settled"

definition postStop :: "unit proc" where
  "postStop = AwaitStop settled"

definition postInterface :: "string \<Rightarrow> unit proc" where
  "postInterface n = AwaitInterface n settled"

definition sleep :: "nat \<Rightarrow> unit proc" where
  "sleep ms = Sleep ms (Done ())"

definition setState :: "(page \<Rightarrow> page) \<Rightarrow> unit proc" where
  "setState u = Update u (Done ())"

definition setIsMonitoring :: "bool \<Rightarrow> unit proc" where
  "setIsMonitoring b = setState (\<lambda>s. s\<lparr>isMonitoring := b\<rparr>)"

definition alert :: "alert \<Rightarrow> unit proc" where
  "alert a = setState (\<lambda>s. s\<lparr>alerts := alerts s @ [a]\<rparr>)"

text \<open>The channel's \<^verbatim>\<open>connect()\<close>, seen from the page: a call is counted.\<close>

definition connectChannel :: "unit proc" where
  "connectChannel = setState (\<lambda>s. s\<lparr>connects := connects s + 1\<rparr>)"

text \<open>
  The values a handler reads from the render that created it. \<^verbatim>\<open>isConnected\<close> comes
  from the channel's context.
\<close>

record closure =
  c_isMonitoring :: bool
  c_selectedInterface :: string
  c_isConnected :: bool

definition render :: "bool \<Rightarrow> page \<Rightarrow> closure" where
  "render conn s =
     \<lparr>c_isMonitoring = isMonitoring s, c_selectedInterface = selectedInterface s,
      c_isConnected = conn\<rparr>"

text \<open>
  Lines 49-69. The callback is memoised with no dependencies, so the
  \<^verbatim>\<open>selectedInterface\<close> it tests is the initial empty string: the condition of line 61
  is that the response names an interface.
\<close>

definition applyStatus :: "health \<Rightarrow> page \<Rightarrow> page" where
  "applyStatus response s =
     s\<lparr>isMonitoring := truthy (sniffer_running response),
       interfaceInfo := Some \<lparr>info_interface = interface response,
                              available = available_interfaces response,
                              info_exists = interface_exists response,
                              info_active_flows = active_flows response\<rparr>,
       snifferStats := Some (sniffer_stats response),
       selectedInterface := (if interface response \<noteq> [] then interface response
                             else selectedInterface s)\<rparr>"

definition checkSnifferStatus :: "bool proc" where
  "checkSnifferStatus =
     tryCatch
       (andThen getHealth (\<lambda>response.
          andThen (setState (applyStatus response)) (\<lambda>_.
          Done (truthy (sniffer_running response)))))
       (\<lambda>error. Done False)"

text \<open>Lines 172-205.\<close>

definition refreshStats :: "browser \<Rightarrow> unit proc" where
  "refreshStats br =
     tryCatch
       (andThen getHistory (\<lambda>history. setState (applySnapshot br history)))
       (\<lambda>error. Done ())"

text \<open>The text of line 111 when the response carries no message; its lines end in a newline.\<close>

definition defaultStartMessage :: string where
  "defaultStartMessage =
     ''Sniffer failed to start. This may be due to:'' @ [CHR 0x0A]
     @ ''- Interface not found'' @ [CHR 0x0A]
     @ ''- Permission issues (need root/admin)'' @ [CHR 0x0A]
     @ ''- Interface not accessible''"

text \<open>Lines 88-125.\<close>

definition startMonitoring :: "browser \<Rightarrow> closure \<Rightarrow> unit proc" where
  "startMonitoring br cl =
     tryCatch
       (andThen (refreshStats br) (\<lambda>_.
        andThen postStart (\<lambda>response.
        andThen (sleep 1000) (\<lambda>_.
        andThen checkSnifferStatus (\<lambda>actualStatus.
          if status response = ''started'' \<and> actualStatus then
            block [setIsMonitoring True,
                   if \<not> c_isConnected cl then connectChannel else Done (),
                   refreshStats br]
          else if status response = ''warning'' \<or> status response = ''failed'' \<or> \<not> actualStatus then
            block [setIsMonitoring False,
                   alert (StartWarning (if start_message response \<noteq> [] then start_message response
                                        else defaultStartMessage))]
          else
            block [setIsMonitoring actualStatus,
                   if actualStatus \<and> \<not> c_isConnected cl then connectChannel else Done ()])))))
       (\<lambda>error. block [setIsMonitoring False, alert (StartFailed (errorText error))])"

text \<open>Lines 127-138.\<close>

definition stopMonitoring :: "unit proc" where
  "stopMonitoring =
     tryCatch
       (block [postStop, setIsMonitoring False])
       (\<lambda>error. alert (StopFailed (errorText error)))"

text \<open>Lines 140-170.\<close>

definition changeInterface :: "browser \<Rightarrow> closure \<Rightarrow> string \<Rightarrow> unit proc" where
  "changeInterface br cl newInterface =
     (if newInterface = [] \<or> newInterface = c_selectedInterface cl then Done ()
      else
        tryCatch
          (block [if c_isMonitoring cl then block [stopMonitoring, sleep 500] else Done (),
                  postInterface newInterface,
                  setState (\<lambda>s. s\<lparr>selectedInterface := newInterface\<rparr>),
                  if c_isMonitoring cl then block [sleep 500, startMonitoring br cl] else Done (),
                  alert (InterfaceChanged newInterface)])
          (\<lambda>error. alert (InterfaceFailed (errorText error))))"

subsection \<open>Running one operation to its end\<close>

text \<open>
  The service, as the page meets it: the settlement of each request, which may depend on
  how many requests the page has issued before it.
\<close>

record remote =
  health_reply :: "nat \<Rightarrow> api_error + health"
  history_reply :: "nat \<Rightarrow> api_error + flow list"
  start_reply :: "nat \<Rightarrow> api_error + start_response"
  stop_reply :: "nat \<Rightarrow> api_error + unit"
  interface_reply :: "nat \<Rightarrow> string \<Rightarrow> api_error + unit"

definition issue :: "request \<Rightarrow> page \<Rightarrow> page" where
  "issue q s = s\<lparr>requests := requests s @ [q]\<rparr>"

text \<open>
  An operation run with nothing else in between: every request is issued, logged and
  settled by the service, every timer elapses. The result is what the function returned
  or threw, and the state it left.
\<close>

primrec run :: "remote \<Rightarrow> 'a proc \<Rightarrow> page \<Rightarrow> (api_error + 'a) \<times> page" where
  "run R (Done a) s = (Inr a, s)"
| "run R (Throw e) s = (Inl e, s)"
| "run R (Update u p) s = run R p (u s)"
| "run R (Sleep n p) s = run R p s"
| "run R (AwaitHealth k) s = run R (k (health_reply R (length (requests s)))) (issue GetHealth s)"
| "run R (AwaitHistory k) s = run R (k (history_reply R (length (requests s)))) (issue GetHistory s)"
| "run R (AwaitStart k) s = run R (k (start_reply R (length (requests s)))) (issue PostStart s)"
| "run R (AwaitStop k) s = run R (k (stop_reply R (length (requests s)))) (issue PostStop s)"
| "run R (AwaitInterface n k) s =
     run R (k (interface_reply R (length (requests s)) n)) (issue (PostInterface n) s)"

text \<open>The control actions among the requests: the ones that change the service.\<close>

fun isControl :: "request \<Rightarrow> bool" where
  "isControl GetHealth = False"
| "isControl GetHistory = False"
| "isControl PostStart = True"
| "isControl PostStop = True"
| "isControl (PostInterface n) = True"

text \<open>What \<^verbatim>\<open>checkSnifferStatus\<close> returns for a settlement of the status request.\<close>

definition polledRunning :: "api_error + health \<Rightarrow> bool" where
  "polledRunning r = (case r of Inl e \<Rightarrow> False | Inr h \<Rightarrow> truthy (sniffer_running h))"

subsection \<open>Operations in flight\<close>

text \<open>
  The operations are plain \<^verbatim>\<open>async\<close> functions called from the page's controls. A call
  runs until its first \<^verbatim>\<open>await\<close> and is then in flight; the event loop resumes it when
  what it waits for has settled. \<open>advance\<close> runs the synchronous part of a function: it
  ends with the function finished (\<open>None\<close>) or waiting; a request is issued when the
  \<^verbatim>\<open>await\<close> is reached.
\<close>

primrec advance :: "unit proc \<Rightarrow> page \<Rightarrow> unit proc option \<times> page" where
  "advance (Done u) s = (None, s)"
| "advance (Throw e) s = (None, s)"
| "advance (Update u p) s = advance p (u s)"
| "advance (Sleep n p) s = (Some (Sleep n p), s)"
| "advance (AwaitHealth k) s = (Some (AwaitHealth k), issue GetHealth s)"
| "advance (AwaitHistory k) s = (Some (AwaitHistory k), issue GetHistory s)"
| "advance (AwaitStart k) s = (Some (AwaitStart k), issue PostStart s)"
| "advance (AwaitStop k) s = (Some (AwaitStop k), issue PostStop s)"
| "advance (AwaitInterface n k) s = (Some (AwaitInterface n k), issue (PostInterface n) s)"

text \<open>What a waiting function can be resumed with.\<close>

datatype reply =
    HealthReply "api_error + health"
  | HistoryReply "api_error + flow list"
  | StartReply "api_error + start_response"
  | StopReply "api_error + unit"
  | InterfaceReply "api_error + unit"
  | TimerElapsed

fun resume :: "reply \<Rightarrow> unit proc \<Rightarrow> unit proc option" where
  "resume (HealthReply r) (AwaitHealth k) = Some (k r)"
| "resume (HistoryReply r) (AwaitHistory k) = Some (k r)"
| "resume (StartReply r) (AwaitStart k) = Some (k r)"
| "resume (StopReply r) (AwaitStop k) = Some (k r)"
| "resume (InterfaceReply r) (AwaitInterface n k) = Some (k r)"
| "resume TimerElapsed (Sleep n p) = Some p"
| "resume r p = None"

datatype operation = Start | Stop | ChangeInterface string

text \<open>The page with the operations that are in flight, oldest first.\<close>

record session =
  view :: page
  inFlight :: "unit proc list"

text \<open>
  The handler of a control, created by the latest render (lines 241, 248 and 278).
\<close>

fun handler :: "browser \<Rightarrow> closure \<Rightarrow> operation \<Rightarrow> unit proc" where
  "handler br cl Start = startMonitoring br cl"
| "handler br cl Stop = stopMonitoring"
| "handler br cl (ChangeInterface n) = changeInterface br cl n"

text \<open>
  A control is used: its handler is called. The page shows the start button while
  \<^verbatim>\<open>isMonitoring\<close> is false, the stop button while it is true, and disables the
  interface selector while it is true (lines 239-253 and 279); the handlers test
  nothing before they begin, and nothing records that an operation is in flight.
\<close>

definition invoke :: "browser \<Rightarrow> bool \<Rightarrow> operation \<Rightarrow> session \<Rightarrow> session" where
  "invoke br conn op c =
     (case advance (handler br (render conn (view c)) op) (view c) of
        (None, s) \<Rightarrow> c\<lparr>view := s\<rparr>
      | (Some p, s) \<Rightarrow> c\<lparr>view := s, inFlight := inFlight c @ [p]\<rparr>)"

text \<open>
  What the \<open>i\<close>-th operation in flight waits for settles: the operation goes on to its
  next \<^verbatim>\<open>await\<close> or to its end. \<open>None\<close> when there is no such operation or it waits
  for something else.
\<close>

definition settle :: "nat \<Rightarrow> reply \<Rightarrow> session \<Rightarrow> session option" where
  "settle i r c =
     (if i < length (inFlight c) then
        (case resume r (inFlight c ! i) of
           None \<Rightarrow> None
         | Some p \<Rightarrow>
            (case advance p (view c) of
               (None, s) \<Rightarrow> Some (c\<lparr>view := s, inFlight := take i (inFlight c) @ drop (Suc i) (inFlight c)\<rparr>)
             | (Some p', s) \<Rightarrow> Some (c\<lparr>view := s, inFlight := (inFlight c)[i := p']\<rparr>)))
      else None)"

text \<open>A page that has polled the status once and found the sniffer stopped on \<open>eth0\<close>.\<close>

definition idlePage :: page where
  "idlePage =
     initialPage\<lparr>interfaceInfo := Some \<lparr>info_interface = ''eth0'', available = [''eth0'', ''eth1''],
                                         info_exists = JBool True, info_active_flows = 0\<rparr>,
                 selectedInterface := ''eth0''\<rparr>"

text \<open>The same page with the sniffer running.\<close>

definition monitoringPage :: page where
  "monitoringPage = idlePage\<lparr>isMonitoring := True\<rparr>"

text \<open>Sample services: one that does everything asked, and variations of it.\<close>

definition healthOf :: "bool \<Rightarrow> health" where
  "healthOf running =
     \<lparr>sniffer_running = JBool running, interface = ''eth0'',
      available_interfaces = [''eth0'', ''eth1''], interface_exists = JBool True,
      active_flows = 0,
      sniffer_stats = \<lparr>packet_count = 0, processed_count = 0, last_error = []\<rparr>\<rparr>"

definition obliging :: remote where
  "obliging =
     \<lparr>health_reply = (\<lambda>n. Inr (healthOf True)),
      history_reply = (\<lambda>n. Inr []),
      start_reply = (\<lambda>n. Inr \<lparr>status = ''started'', start_message = []\<rparr>),
      stop_reply = (\<lambda>n. Inr ()),
      interface_reply = (\<lambda>n name. Inr ())\<rparr>"

definition refused :: api_error where
  "refused = \<lparr>detail = ''refused'', message = ''Request failed with status code 500''\<rparr>"

definition notStarting :: remote where
  "notStarting = obliging\<lparr>health_reply := (\<lambda>n. Inr (healthOf False))\<rparr>"

definition rejectingInterface :: remote where
  "rejectingInterface = obliging\<lparr>interface_reply := (\<lambda>n name. Inl refused)\<rparr>"

definition rejectingStop :: remote where
  "rejectingStop = obliging\<lparr>stop_reply := (\<lambda>n. Inl refused)\<rparr>"

definition idleSession :: session where
  "idleSession = \<lparr>view = idlePage, inFlight = []\<rparr>"

text \<open>
  A start that is confirmed: the start action, issued as request number \<open>k\<close>, is not
  rejected and answers with a status other than \<^verbatim>\<open>warning\<close> and \<^verbatim>\<open>failed\<close>, and the
  status poll issued next reports the sniffer running. A start fails when it is not
  confirmed.
\<close>

definition startConfirmed :: "remote \<Rightarrow> nat \<Rightarrow> bool" where
  "startConfirmed R k =
     (case start_reply R k of
        Inl e \<Rightarrow> False
      | Inr response \<Rightarrow> status response \<noteq> ''warning'' \<and> status response \<noteq> ''failed''
          \<and> polledRunning (health_reply R (Suc k)))"

section \<open>Channel Manager (contexts/WebSocketContext.jsx)\<close>

datatype readyState = CONNECTING | OPEN | CLOSING | CLOSED

text \<open>
  The provider's state: \<^verbatim>\<open>isConnected\<close> and \<^verbatim>\<open>lastMessage\<close> (lines 7-8) and the three
  refs (lines 9-11), followed by what the browser holds for it: every \<^verbatim>\<open>WebSocket\<close>
  constructed so far with its ready state (\<^verbatim>\<open>wsRef\<close> is an index into this list), the
  timeouts that are pending, the number of timeouts ever set, and the calls of handlers
  made so far, in order.

  A handler is a function, known by its identity, here a number. The \<^verbatim>\<open>Set\<close> of
  handlers is the list of its entries in insertion order, where a deleted entry leaves
  an empty slot, as in the language definition of \<^verbatim>\<open>Set\<close>.
\<close>

record 'm channel =
  isConnected :: bool
  lastMessage :: "'m option"
  wsRef :: "nat option"
  reconnectTimeoutRef :: "nat option"
  messageHandlersRef :: "nat option list"
  sockets :: "readyState list"
  timers :: "nat list"
  timersSet :: nat
  calls :: "(nat \<times> 'm) list"

definition initialChannel :: "'m channel" where
  "initialChannel =
     \<lparr>isConnected = False, lastMessage = None, wsRef = None, reconnectTimeoutRef = None,
      messageHandlersRef = [], sockets = [], timers = [], timersSet = 0, calls = []\<rparr>"

subsection \<open>The set of handlers\<close>

text \<open>\<^verbatim>\<open>Set.prototype.add\<close>, \<^verbatim>\<open>delete\<close>, and the values a set holds.\<close>

definition setAdd :: "nat \<Rightarrow> nat option list \<Rightarrow> nat option list" where
  "setAdd h sd = (if Some h \<in> set sd then sd else sd @ [Some h])"

definition setDelete :: "nat \<Rightarrow> nat option list \<Rightarrow> nat option list" where
  "setDelete h sd = map (\<lambda>e. if e = Some h then None else e) sd"

definition entries :: "nat option list \<Rightarrow> nat list" where
  "entries sd = List.map_filter (\<lambda>e. e) sd"

text \<open>
  What a handler does to the set when it is called: it may subscribe and unsubscribe
  handlers, itself included. An exception it throws is caught around its call (lines
  42-46) and only logged.
\<close>

datatype action = Subscribe nat | Unsubscribe nat

fun perform :: "action \<Rightarrow> nat option list \<Rightarrow> nat option list" where
  "perform (Subscribe h) sd = setAdd h sd"
| "perform (Unsubscribe h) sd = setDelete h sd"

text \<open>
  \<^verbatim>\<open>Set.prototype.forEach\<close> (line 41): the entries are visited by position in the live
  list, whose length is read again after every call, so entries added during the
  iteration are visited and entries deleted before their turn are skipped. The loop need
  not end (a handler may delete and add itself), so it runs on fuel: \<open>None\<close> when the
  fuel is used up first. The result is the set afterwards and the handlers called, in
  order.
\<close>

fun forEach ::
  "nat \<Rightarrow> (nat \<Rightarrow> 'm \<Rightarrow> action list) \<Rightarrow> 'm \<Rightarrow> nat \<Rightarrow> nat option list \<Rightarrow> nat list
     \<Rightarrow> (nat option list \<times> nat list) option" where
  "forEach 0 behaviour d i sd called =
     (if length sd \<le> i then Some (sd, called) else None)"
| "forEach (Suc fuel) behaviour d i sd called =
     (if length sd \<le> i then Some (sd, called)
      else (case sd ! i of
              None \<Rightarrow> forEach fuel behaviour d (Suc i) sd called
            | Some h \<Rightarrow> forEach fuel behaviour d (Suc i) (fold perform (behaviour h d) sd)
                          (called @ [h])))"

subsection \<open>The provider's functions\<close>

definition readyStateOf :: "'m channel \<Rightarrow> nat \<Rightarrow> readyState option" where
  "readyStateOf c i = (if i < length (sockets c) then Some (sockets c ! i) else None)"

text \<open>
  Lines 13-71. \<open>urlOk\<close> says whether the constructor accepts the configured URL; it
  throws otherwise, into the \<^verbatim>\<open>catch\<close> of line 67. The four handlers assigned in lines
  27-66 are \<open>onopen\<close>, \<open>onmessage\<close>, \<open>onerror\<close> and \<open>onclose\<close> below: every socket
  constructed has them.
\<close>

definition connect :: "bool \<Rightarrow> 'm channel \<Rightarrow> 'm channel" where
  "connect urlOk c =
     (if (case wsRef c of
            None \<Rightarrow> False
          | Some i \<Rightarrow> readyStateOf c i = Some OPEN \<or> readyStateOf c i = Some CONNECTING)
      then c
      else if urlOk then c\<lparr>wsRef := Some (length (sockets c)), sockets := sockets c @ [CONNECTING]\<rparr>
      else c\<lparr>isConnected := False\<rparr>)"

text \<open>\<^verbatim>\<open>clearTimeout\<close> of the pending reconnect, lines 30-33 and 74-77.\<close>

definition clearReconnect :: "'m channel \<Rightarrow> 'm channel" where
  "clearReconnect c =
     (case reconnectTimeoutRef c of
        None \<Rightarrow> c
      | Some t \<Rightarrow> c\<lparr>timers := removeAll t (timers c), reconnectTimeoutRef := None\<rparr>)"

definition onopen :: "'m channel \<Rightarrow> 'm channel" where
  "onopen c = clearReconnect (c\<lparr>isConnected := True\<rparr>)"

text \<open>
  Lines 36-52. The payload is \<open>None\<close> when \<^verbatim>\<open>JSON.parse\<close> throws: that is caught and
  logged. The result is \<open>None\<close> when the iteration over the handlers does not end
  within the fuel.
\<close>

definition onmessage ::
  "nat \<Rightarrow> (nat \<Rightarrow> 'm \<Rightarrow> action list) \<Rightarrow> 'm option \<Rightarrow> 'm channel \<Rightarrow> 'm channel option" where
  "onmessage fuel behaviour payload c =
     (case payload of
        None \<Rightarrow> Some c
      | Some d \<Rightarrow>
         (case forEach fuel behaviour d 0 (messageHandlersRef c) [] of
            None \<Rightarrow> None
          | Some (sd, called) \<Rightarrow>
              Some (c\<lparr>lastMessage := Some d, messageHandlersRef := sd,
                      calls := calls c @ map (\<lambda>h. (h, d)) called\<rparr>)))"

definition onerror :: "'m channel \<Rightarrow> 'm channel" where
  "onerror c = c\<lparr>isConnected := False\<rparr>"

text \<open>Lines 59-66: a timeout is set, with a fresh identifier, and kept in the ref.\<close>

definition onclose :: "'m channel \<Rightarrow> 'm channel" where
  "onclose c =
     c\<lparr>isConnected := False,
       reconnectTimeoutRef := Some (Suc (timersSet c)),
       timers := timers c @ [Suc (timersSet c)],
       timersSet := Suc (timersSet c)\<rparr>"

text \<open>
  \<^verbatim>\<open>WebSocket.close()\<close>: a socket that is connecting or open starts closing; its close
  event follows later.
\<close>

fun closing :: "readyState \<Rightarrow> readyState" where
  "closing CONNECTING = CLOSING"
| "closing OPEN = CLOSING"
| "closing CLOSING = CLOSING"
| "closing CLOSED = CLOSED"

text \<open>Lines 73-83.\<close>

definition disconnect :: "'m channel \<Rightarrow> 'm channel" where
  "disconnect c =
     (let c1 = clearReconnect c;
          c2 = (case wsRef c1 of
                  None \<Rightarrow> c1
                | Some i \<Rightarrow> c1\<lparr>sockets := (if i < length (sockets c1)
                                             then (sockets c1)[i := closing (sockets c1 ! i)]
                                             else sockets c1),
                                 wsRef := None\<rparr>)
      in c2\<lparr>isConnected := False\<rparr>)"

text \<open>Lines 85-90: \<open>subscribe\<close> and the function it returns.\<close>

definition subscribe :: "nat \<Rightarrow> 'm channel \<Rightarrow> 'm channel" where
  "subscribe h c = c\<lparr>messageHandlersRef := setAdd h (messageHandlersRef c)\<rparr>"

definition unsubscribe :: "nat \<Rightarrow> 'm channel \<Rightarrow> 'm channel" where
  "unsubscribe h c = c\<lparr>messageHandlersRef := setDelete h (messageHandlersRef c)\<rparr>"

subsection \<open>The event loop\<close>

text \<open>
  What can happen to the provider: one of its functions is called, or the browser runs a
  handler of a socket or a timeout. A socket opens only while it is connecting, receives
  messages only while it is open, and closes once; a timeout fires only while pending.
  \<open>None\<close> is an event that cannot happen in the state, or a dispatch that does not end.
\<close>

datatype 'm event =
    Connect
  | Disconnect
  | Subscribed nat
  | Unsubscribed nat
  | Opened nat
  | Errored nat
  | Closed nat
  | Message nat "'m option"
  | Timeout nat

fun step ::
  "bool \<Rightarrow> nat \<Rightarrow> (nat \<Rightarrow> 'm \<Rightarrow> action list) \<Rightarrow> 'm event \<Rightarrow> 'm channel \<Rightarrow> 'm channel option" where
  "step urlOk fuel behaviour Connect c = Some (connect urlOk c)"
| "step urlOk fuel behaviour Disconnect c = Some (disconnect c)"
| "step urlOk fuel behaviour (Subscribed h) c = Some (subscribe h c)"
| "step urlOk fuel behaviour (Unsubscribed h) c = Some (unsubscribe h c)"
| "step urlOk fuel behaviour (Opened i) c =
     (if readyStateOf c i = Some CONNECTING
      then Some (onopen (c\<lparr>sockets := (sockets c)[i := OPEN]\<rparr>))
      else None)"
| "step urlOk fuel behaviour (Errored i) c =
     (if readyStateOf c i = None \<or> readyStateOf c i = Some CLOSED then None
      else Some (onerror c))"
| "step urlOk fuel behaviour (Closed i) c =
     (if readyStateOf c i = None \<or> readyStateOf c i = Some CLOSED then None
      else Some (onclose (c\<lparr>sockets := (sockets c)[i := CLOSED]\<rparr>)))"
| "step urlOk fuel behaviour (Message i payload) c =
     (if readyStateOf c i = Some OPEN then onmessage fuel behaviour payload c else None)"
| "step urlOk fuel behaviour (Timeout t) c =
     (if t \<in> set (timers c) then Some (connect urlOk (c\<lparr>timers := removeAll t (timers c)\<rparr>))
      else None)"

fun steps ::
  "bool \<Rightarrow> nat \<Rightarrow> (nat \<Rightarrow> 'm \<Rightarrow> action list) \<Rightarrow> 'm event list \<Rightarrow> 'm channel
     \<Rightarrow> 'm channel option" where
  "steps urlOk fuel behaviour [] c = Some c"
| "steps urlOk fuel behaviour (e # es) c =
     (case step urlOk fuel behaviour e c of
        None \<Rightarrow> None
      | Some c' \<Rightarrow> steps urlOk fuel behaviour es c')"

text \<open>Handlers that leave the set alone, and a first handler that unsubscribes the second.\<close>

definition quiet :: "nat \<Rightarrow> 'm \<Rightarrow> action list" where
  "quiet h d = []"

definition firstDropsSecond :: "nat \<Rightarrow> 'm \<Rightarrow> action list" where
  "firstDropsSecond h d = (if h = 0 then [Unsubscribe 1] else [])"

definition firstAddsThird :: "nat \<Rightarrow> 'm \<Rightarrow> action list" where
  "firstAddsThird h d = (if h = 0 then [Subscribe 2] else [])"

text \<open>A provider whose socket is open, with the handlers 0 and 1 subscribed.\<close>

definition twoSubscribers :: "nat channel" where
  "twoSubscribers =
     \<lparr>isConnected = True, lastMessage = None, wsRef = Some 0, reconnectTimeoutRef = None,
      messageHandlersRef = [Some 0, Some 1], sockets = [OPEN], timers = [], timersSet = 0,
      calls = []\<rparr>"

text \<open>A socket that \<^verbatim>\<open>connect\<close> takes for a connection: connecting or open.\<close>

definition connectingOrOpen :: "'m channel \<Rightarrow> nat \<Rightarrow> bool" where
  "connectingOrOpen c j = (readyStateOf c j = Some OPEN \<or> readyStateOf c j = Some CONNECTING)"

text \<open>
  No socket but the one in \<^verbatim>\<open>wsRef\<close> is connecting or open, and no handler is in the
  set twice.
\<close>

definition solo :: "'m channel \<Rightarrow> bool" where
  "solo c = (\<forall>j. connectingOrOpen c j \<longrightarrow> wsRef c = Some j)"

definition sound :: "'m channel \<Rightarrow> bool" where
  "sound c = (solo c \<and> distinct (entries (messageHandlersRef c)))"

section \<open>Properties of the Flow Aggregator\<close>

subsection \<open>The window of pushed events\<close>

lemma take_append_take: "take n (xs @ take n ys) = take n (xs @ ys)"
  by (simp add: min_def)

lemma flows_applyPushes:
  "flows (applyPushes ds (applyPush d s)) = take 200 (rev (map flowData (d # ds)) @ flows s)"
proof (induction ds arbitrary: d s)
  case Nil
  show ?case by (simp add: applyPushes_def applyPush_def)
next
  case (Cons e ds)
  have "flows (applyPushes (e # ds) (applyPush d s))
          = flows (applyPushes ds (applyPush e (applyPush d s)))"
    by (simp add: applyPushes_def)
  also have "\<dots> = take 200 (rev (map flowData (e # ds)) @ flows (applyPush d s))"
    by (rule Cons.IH)
  also have "\<dots> = take 200 (rev (map flowData (e # ds)) @ take 200 (flowData d # flows s))"
    by (simp add: applyPush_def)
  also have "\<dots> = take 200 (rev (map flowData (e # ds)) @ flowData d # flows s)"
    by (rule take_append_take)
  finally show ?case by simp
qed

lemma flows_applyPushes_full:
  assumes "200 \<le> length ds"
  shows "flows (applyPushes ds s) = rev (map flowData (drop (length ds - 200) ds))"
proof -
  from assms obtain d es where ds: "ds = d # es" by (cases ds) auto
  have "flows (applyPushes ds s) = flows (applyPushes es (applyPush d s))"
    by (simp add: ds applyPushes_def)
  also have "\<dots> = take 200 (rev (map flowData ds) @ flows s)"
    unfolding ds by (rule flows_applyPushes)
  also have "\<dots> = take 200 (rev (map flowData ds))"
    using assms by simp
  also have "\<dots> = rev (drop (length ds - 200) (map flowData ds))"
    by (simp add: take_rev)
  finally show ?thesis by (simp add: drop_map)
qed

lemma stats_applyPushes:
  "stats (applyPushes ds s) =
     \<lparr>total_flows = total_flows (stats s) + length ds,
      attacks = attacks (stats s) + length (filter (\<lambda>d. truthy (is_attack d)) ds)\<rparr>"
  by (induction ds arbitrary: s) (simp_all add: applyPushes_def applyPush_def)

lemma confidence_flowData:
  "confidence (flowData d) =
     (if truthy (confidence d) then confidence d
      else if truthy (binary_confidence d) then binary_confidence d
      else JNum 0)"
  by (simp add: flowData_def js_or_def)

text \<open>
  Claim C6. After more than 200 push messages, whatever the page held before, the flow
  view has exactly 200 entries: the last 200 messages, most recent first, each with its
  confidence normalised. One push puts the normalised message in front and cuts the view
  to 200; the normalised message is the message with its confidence replaced by the
  first truthy one of its confidence and its binary confidence, or by 0 (a confidence
  that is absent, null or zero falls through, as \<^verbatim>\<open>||\<close> does); the total goes up by
  one and the attack count by one exactly when \<^verbatim>\<open>is_attack\<close> is truthy.
\<close>

theorem applyPush_window:
  assumes "200 < length ds"
  shows "length (flows (applyPushes ds s)) = 200
       \<and> flows (applyPushes ds s) = rev (map flowData (drop (length ds - 200) ds))
       \<and> stats (applyPushes ds s) =
           \<lparr>total_flows = total_flows (stats s) + length ds,
            attacks = attacks (stats s) + length (filter (\<lambda>d. truthy (is_attack d)) ds)\<rparr>
       \<and> (\<forall>d t. flows (applyPush d t) = take 200 (flowData d # flows t)
            \<and> confidence (flowData d) =
                (if truthy (confidence d) then confidence d
                 else if truthy (binary_confidence d) then binary_confidence d
                 else JNum 0)
            \<and> flowData d\<lparr>confidence := confidence d\<rparr> = d
            \<and> total_flows (stats (applyPush d t)) = total_flows (stats t) + 1
            \<and> attacks (stats (applyPush d t)) =
                attacks (stats t) + (if truthy (is_attack d) then 1 else 0))"
proof -
  have le: "200 \<le> length ds" using assms by simp
  have win: "flows (applyPushes ds s) = rev (map flowData (drop (length ds - 200) ds))"
    by (rule flows_applyPushes_full [OF le])
  have len: "length (flows (applyPushes ds s)) = 200"
    unfolding win using le by simp
  have one: "\<forall>d t. flows (applyPush d t) = take 200 (flowData d # flows t)
            \<and> confidence (flowData d) =
                (if truthy (confidence d) then confidence d
                 else if truthy (binary_confidence d) then binary_confidence d
                 else JNum 0)
            \<and> flowData d\<lparr>confidence := confidence d\<rparr> = d
            \<and> total_flows (stats (applyPush d t)) = total_flows (stats t) + 1
            \<and> attacks (stats (applyPush d t)) =
                attacks (stats t) + (if truthy (is_attack d) then 1 else 0)"
    by (simp add: applyPush_def confidence_flowData) (simp add: flowData_def)
  from len win stats_applyPushes [of ds s] one show ?thesis by blast
qed

theorem applyPush_window_witness:
  "200 < length (replicate 200 benign @ [portScan])
   \<and> length (flows (applyPushes (replicate 200 benign @ [portScan]) initialPage)) = 200
   \<and> flows (applyPushes (replicate 200 benign @ [portScan]) initialPage)
       = flowData portScan # replicate 199 (flowData benign)
   \<and> stats (applyPushes (replicate 200 benign @ [portScan]) initialPage)
       = \<lparr>total_flows = 201, attacks = 1\<rparr>
   \<and> confidence (flowData benign) = JNum 0.9"
  using applyPush_window [of "replicate 200 benign @ [portScan]" initialPage]
  by (simp add: benign_def portScan_def initialPage_def replicate_append_same [symmetric])

subsection \<open>Snapshots\<close>















subsection \<open>The counters\<close>

lemma applyUpdate_inv:
  "attacks (stats s) \<le> total_flows (stats s) \<Longrightarrow>
   attacks (stats (applyUpdate br u s)) \<le> total_flows (stats (applyUpdate br u s))"
  by (cases u) (simp_all add: applyPush_def applySnapshot_def)

lemma fold_applyUpdate_inv:
  "attacks (stats s) \<le> total_flows (stats s) \<Longrightarrow>
   attacks (stats (fold (applyUpdate br) us s))
     \<le> total_flows (stats (fold (applyUpdate br) us s))"
  by (induction us arbitrary: s) (simp_all add: applyUpdate_inv)

text \<open>
  Claim C8. Starting from the counters \<^verbatim>\<open>{total: 0, attacks: 0}\<close> of a fresh page, after
  any sequence of pushes and snapshots, in any order, the attack count is at most the
  total.
\<close>

theorem attacks_le_total:
  "attacks (stats (fold (applyUpdate br) us initialPage))
     \<le> total_flows (stats (fold (applyUpdate br) us initialPage))"
  by (rule fold_applyUpdate_inv) (simp add: initialPage_def)

theorem attacks_le_total_witness:
  "stats (fold (applyUpdate sampleBrowser) [Push portScan, Snapshot [benign, portScan], Push benign]
            initialPage) = \<lparr>total_flows = 3, attacks = 1\<rparr>
   \<and> attacks (stats (fold (applyUpdate sampleBrowser)
                 [Push portScan, Snapshot [benign, portScan], Push benign] initialPage))
       \<le> total_flows (stats (fold (applyUpdate sampleBrowser)
                 [Push portScan, Snapshot [benign, portScan], Push benign] initialPage))"
  using attacks_le_total [of sampleBrowser "[Push portScan, Snapshot [benign, portScan], Push benign]"]
  by (simp add: applyPush_def applySnapshot_def initialPage_def benign_def portScan_def)

section \<open>Properties of the Control Orchestrator\<close>

subsection \<open>Running the building blocks\<close>

lemma run_andThen:
  "run R (andThen p f) s =
     (case run R p s of (Inl e, s') \<Rightarrow> (Inl e, s') | (Inr a, s') \<Rightarrow> run R (f a) s')"
  by (induction p arbitrary: s) simp_all

lemma run_tryCatch:
  "run R (tryCatch p h) s =
     (case run R p s of (Inl e, s') \<Rightarrow> run R (h e) s' | (Inr a, s') \<Rightarrow> (Inr a, s'))"
  by (induction p arbitrary: s) simp_all

lemma run_settled: "run R (settled r) s = (case r of Inl e \<Rightarrow> (Inl e, s) | Inr v \<Rightarrow> (Inr v, s))"
  by (simp add: settled_def split: sum.splits)

lemma run_setState: "run R (setState u) s = (Inr (), u s)"
  by (simp add: setState_def)

lemma run_sleep: "run R (sleep n) s = (Inr (), s)"
  by (simp add: sleep_def)

lemma run_refreshStats:
  "run R (refreshStats br) s =
     (Inr (), case history_reply R (length (requests s)) of
                Inl e \<Rightarrow> issue GetHistory s
              | Inr h \<Rightarrow> applySnapshot br h (issue GetHistory s))"
  by (simp add: refreshStats_def getHistory_def run_tryCatch run_andThen run_settled run_setState
           split: sum.splits)

lemma run_checkSnifferStatus:
  "run R checkSnifferStatus s =
     (Inr (polledRunning (health_reply R (length (requests s)))),
      case health_reply R (length (requests s)) of
        Inl e \<Rightarrow> issue GetHealth s
      | Inr h \<Rightarrow> applyStatus h (issue GetHealth s))"
  by (simp add: checkSnifferStatus_def getHealth_def run_tryCatch run_andThen run_settled
        run_setState polledRunning_def split: sum.splits)

lemma run_stopMonitoring:
  "run R stopMonitoring s =
     (Inr (), case stop_reply R (length (requests s)) of
                Inl e \<Rightarrow> (issue PostStop s)\<lparr>alerts := alerts s @ [StopFailed (errorText e)]\<rparr>
              | Inr u \<Rightarrow> (issue PostStop s)\<lparr>isMonitoring := False\<rparr>)"
  by (simp add: stopMonitoring_def postStop_def run_tryCatch run_andThen run_settled run_setState
        setIsMonitoring_def alert_def issue_def split: sum.splits)

lemma refreshed_fields:
  "requests (case r of Inl e \<Rightarrow> issue GetHistory s | Inr h \<Rightarrow> applySnapshot br h (issue GetHistory s))
     = requests s @ [GetHistory]"
  "isMonitoring (case r of Inl e \<Rightarrow> issue GetHistory s | Inr h \<Rightarrow> applySnapshot br h (issue GetHistory s))
     = isMonitoring s"
  "alerts (case r of Inl e \<Rightarrow> issue GetHistory s | Inr h \<Rightarrow> applySnapshot br h (issue GetHistory s))
     = alerts s"
  by (simp_all add: issue_def applySnapshot_def split: sum.splits)

lemma polled_fields:
  "requests (case r of Inl e \<Rightarrow> issue GetHealth s | Inr h \<Rightarrow> applyStatus h (issue GetHealth s))
     = requests s @ [GetHealth]"
  "alerts (case r of Inl e \<Rightarrow> issue GetHealth s | Inr h \<Rightarrow> applyStatus h (issue GetHealth s))
     = alerts s"
  by (simp_all add: issue_def applyStatus_def split: sum.splits)

lemmas start_simps =
  startMonitoring_def run_tryCatch run_andThen run_refreshStats run_checkSnifferStatus
  run_settled run_setState run_sleep postStart_def setIsMonitoring_def alert_def
  connectChannel_def refreshed_fields polled_fields issue_def

lemma startMonitoring_returns: "fst (run R (startMonitoring br cl) s) = Inr ()"
  by (simp add: start_simps split: sum.splits)

lemma startMonitoring_phase:
  "isMonitoring (snd (run R (startMonitoring br cl) s)) =
     (case start_reply R (Suc (length (requests s))) of
        Inl e \<Rightarrow> False
      | Inr response \<Rightarrow> status response \<noteq> ''warning'' \<and> status response \<noteq> ''failed''
           \<and> polledRunning (health_reply R (Suc (Suc (length (requests s))))))"
  by (simp add: start_simps split: sum.splits)

lemma startMonitoring_requests:
  "requests (snd (run R (startMonitoring br cl) s)) =
     requests s @ [GetHistory, PostStart] @
       (case start_reply R (Suc (length (requests s))) of
          Inl e \<Rightarrow> []
        | Inr response \<Rightarrow>
            GetHealth # (if status response = ''started''
                            \<and> polledRunning (health_reply R (Suc (Suc (length (requests s)))))
                         then [GetHistory] else []))"
  by (simp add: start_simps split: sum.splits)

lemma startMonitoring_alerts:
  "alerts (snd (run R (startMonitoring br cl) s)) =
     alerts s @
       (case start_reply R (Suc (length (requests s))) of
          Inl e \<Rightarrow> [StartFailed (errorText e)]
        | Inr response \<Rightarrow>
            if status response = ''started''
                 \<and> polledRunning (health_reply R (Suc (Suc (length (requests s))))) then []
            else if status response = ''warning'' \<or> status response = ''failed''
                 \<or> \<not> polledRunning (health_reply R (Suc (Suc (length (requests s)))))
            then [StartWarning (if start_message response \<noteq> [] then start_message response
                                else defaultStartMessage)]
            else [])"
  by (simp add: start_simps split: sum.splits)

lemma run_postInterface:
  "run R (postInterface n) s =
     (case interface_reply R (length (requests s)) n of
        Inl e \<Rightarrow> (Inl e, issue (PostInterface n) s)
      | Inr u \<Rightarrow> (Inr (), issue (PostInterface n) s))"
  by (simp add: postInterface_def run_settled split: sum.splits)

lemma stopped_requests: "requests (snd (run R stopMonitoring s)) = requests s @ [PostStop]"
  by (simp add: run_stopMonitoring issue_def split: sum.splits)

lemma changeInterface_same:
  "newInterface = [] \<or> newInterface = c_selectedInterface cl \<Longrightarrow>
   run R (changeInterface br cl newInterface) s = (Inr (), s)"
  by (auto simp: changeInterface_def)

lemma changeInterface_running:
  assumes "newInterface \<noteq> []" and "newInterface \<noteq> c_selectedInterface cl" and "c_isMonitoring cl"
  shows "snd (run R (changeInterface br cl newInterface) s) =
     (let s1 = snd (run R stopMonitoring s) in
      case interface_reply R (Suc (length (requests s))) newInterface of
        Inl e \<Rightarrow> (issue (PostInterface newInterface) s1)\<lparr>alerts := alerts s1 @ [InterfaceFailed (errorText e)]\<rparr>
      | Inr u \<Rightarrow>
          (let s2 = snd (run R (startMonitoring br cl)
                          ((issue (PostInterface newInterface) s1)\<lparr>selectedInterface := newInterface\<rparr>))
           in s2\<lparr>alerts := alerts s2 @ [InterfaceChanged newInterface]\<rparr>))"
proof -
  have sp: "fst (run R stopMonitoring s) = Inr ()"
    by (simp add: run_stopMonitoring)
  show ?thesis
    using assms
    by (simp add: changeInterface_def run_tryCatch run_andThen case_prod_beta sp
          startMonitoring_returns run_postInterface stopped_requests run_setState run_sleep
          alert_def issue_def Let_def split: sum.splits)
qed


subsection \<open>Start\<close>

text \<open>
  Claim C4. After \<^verbatim>\<open>startMonitoring\<close> has run, the page shows the sniffer running only
  when the start action was not rejected, its response carries a status other than
  \<^verbatim>\<open>warning\<close> and \<^verbatim>\<open>failed\<close> (of the statuses of the service these are
  \<^verbatim>\<open>started\<close> and already running), and the status polled after it reports the
  sniffer running; the start action is the second request of the operation and the poll
  the third. In particular, when the action answers \<^verbatim>\<open>started\<close> and the poll fails or
  reports the sniffer not running, the page shows it stopped and alerts the user with
  the message of the response, or with the standard text when there is none.
\<close>

theorem startMonitoring_running_only_when_confirmed:
  "(isMonitoring (snd (run R (startMonitoring br cl) s)) \<longrightarrow>
      (\<exists>response h.
         start_reply R (Suc (length (requests s))) = Inr response
         \<and> status response \<noteq> ''warning'' \<and> status response \<noteq> ''failed''
         \<and> health_reply R (Suc (Suc (length (requests s)))) = Inr h
         \<and> truthy (sniffer_running h)
         \<and> take 3 (drop (length (requests s)) (requests (snd (run R (startMonitoring br cl) s))))
             = [GetHistory, PostStart, GetHealth]))
   \<and> (\<forall>response.
         start_reply R (Suc (length (requests s))) = Inr response
         \<and> status response = ''started''
         \<and> \<not> polledRunning (health_reply R (Suc (Suc (length (requests s)))))
       \<longrightarrow> \<not> isMonitoring (snd (run R (startMonitoring br cl) s))
           \<and> alerts (snd (run R (startMonitoring br cl) s)) =
               alerts s @ [StartWarning (if start_message response \<noteq> [] then start_message response
                                         else defaultStartMessage)])"
proof -
  let ?s' = "snd (run R (startMonitoring br cl) s)"
  let ?n = "length (requests s)"
  have running: "isMonitoring ?s' \<longrightarrow>
      (\<exists>response h.
         start_reply R (Suc ?n) = Inr response
         \<and> status response \<noteq> ''warning'' \<and> status response \<noteq> ''failed''
         \<and> health_reply R (Suc (Suc ?n)) = Inr h
         \<and> truthy (sniffer_running h)
         \<and> take 3 (drop ?n (requests ?s')) = [GetHistory, PostStart, GetHealth])"
  proof
    assume on: "isMonitoring ?s'"
    then obtain response where r: "start_reply R (Suc ?n) = Inr response"
      and ok: "status response \<noteq> ''warning''" "status response \<noteq> ''failed''"
      and p: "polledRunning (health_reply R (Suc (Suc ?n)))"
      by (auto simp: startMonitoring_phase split: sum.splits)
    from p obtain h where h: "health_reply R (Suc (Suc ?n)) = Inr h" "truthy (sniffer_running h)"
      by (auto simp: polledRunning_def split: sum.splits)
    have "take 3 (drop ?n (requests ?s')) = [GetHistory, PostStart, GetHealth]"
      by (simp add: startMonitoring_requests r)
    with r ok h show "\<exists>response h.
         start_reply R (Suc ?n) = Inr response
         \<and> status response \<noteq> ''warning'' \<and> status response \<noteq> ''failed''
         \<and> health_reply R (Suc (Suc ?n)) = Inr h
         \<and> truthy (sniffer_running h)
         \<and> take 3 (drop ?n (requests ?s')) = [GetHistory, PostStart, GetHealth]"
      by blast
  qed
  have unconfirmed: "\<forall>response.
         start_reply R (Suc ?n) = Inr response
         \<and> status response = ''started''
         \<and> \<not> polledRunning (health_reply R (Suc (Suc ?n)))
       \<longrightarrow> \<not> isMonitoring ?s'
           \<and> alerts ?s' =
               alerts s @ [StartWarning (if start_message response \<noteq> [] then start_message response
                                         else defaultStartMessage)]"
    by (simp add: startMonitoring_phase startMonitoring_alerts)
  from running unconfirmed show ?thesis by (rule conjI)
qed

theorem startMonitoring_running_only_when_confirmed_witness:
  "start_reply notStarting (Suc (length (requests idlePage))) = Inr \<lparr>status = ''started'', start_message = []\<rparr>
   \<and> \<not> polledRunning (health_reply notStarting (Suc (Suc (length (requests idlePage)))))
   \<and> \<not> isMonitoring (snd (run notStarting (startMonitoring sampleBrowser (render True idlePage)) idlePage))
   \<and> alerts (snd (run notStarting (startMonitoring sampleBrowser (render True idlePage)) idlePage))
       = [StartWarning defaultStartMessage]"
  using startMonitoring_running_only_when_confirmed
          [of notStarting sampleBrowser "render True idlePage" idlePage]
  by (simp add: notStarting_def obliging_def polledRunning_def healthOf_def idlePage_def
        initialPage_def)

subsection \<open>Stop\<close>

text \<open>
  Claim C10. When the stop request is rejected, \<^verbatim>\<open>stopMonitoring\<close> leaves the
  monitoring flag, the flow view and the statistics as they were and alerts the user.
  The flag is cleared only once the request has returned without error: while the
  request is in flight the state is unchanged but for the request issued.
\<close>

theorem stopMonitoring_failure_changes_nothing:
  "(\<forall>e. stop_reply R (length (requests s)) = Inl e \<longrightarrow>
        isMonitoring (snd (run R stopMonitoring s)) = isMonitoring s
      \<and> flows (snd (run R stopMonitoring s)) = flows s
      \<and> stats (snd (run R stopMonitoring s)) = stats s
      \<and> alerts (snd (run R stopMonitoring s)) = alerts s @ [StopFailed (errorText e)])
   \<and> (\<forall>u. stop_reply R (length (requests s)) = Inr u \<longrightarrow>
        \<not> isMonitoring (snd (run R stopMonitoring s))
      \<and> flows (snd (run R stopMonitoring s)) = flows s
      \<and> stats (snd (run R stopMonitoring s)) = stats s)
   \<and> snd (advance stopMonitoring s) = issue PostStop s"
proof -
  have waiting: "snd (advance stopMonitoring s) = issue PostStop s"
    by (simp add: stopMonitoring_def postStop_def)
  then show ?thesis
    by (simp add: run_stopMonitoring issue_def)
qed

theorem stopMonitoring_failure_changes_nothing_witness:
  "stop_reply rejectingStop (length (requests monitoringPage)) = Inl refused
   \<and> isMonitoring (snd (run rejectingStop stopMonitoring monitoringPage))
   \<and> flows (snd (run rejectingStop stopMonitoring monitoringPage)) = flows monitoringPage
   \<and> stats (snd (run rejectingStop stopMonitoring monitoringPage)) = stats monitoringPage
   \<and> alerts (snd (run rejectingStop stopMonitoring monitoringPage)) = [StopFailed ''refused'']"
  using stopMonitoring_failure_changes_nothing [of rejectingStop monitoringPage]
  by (simp add: rejectingStop_def obliging_def monitoringPage_def idlePage_def initialPage_def
        refused_def errorText_def)

subsection \<open>Change of interface\<close>

text \<open>
  While the sniffer is running, a change to another interface whose set-interface
  request is rejected issues the stop and the set-interface action and no start.
\<close>

theorem changeInterface_rejected_issues_no_start:
  "isMonitoring monitoringPage
   \<and> ''eth1'' \<noteq> selectedInterface monitoringPage
   \<and> requests (snd (run rejectingInterface
         (changeInterface sampleBrowser (render True monitoringPage) ''eth1'') monitoringPage))
       = [PostStop, PostInterface ''eth1'']"
  by (simp add: changeInterface_running render_def monitoringPage_def idlePage_def initialPage_def
        rejectingInterface_def obliging_def run_stopMonitoring issue_def)

text \<open>
  Claim C5, as the code has it. \<^verbatim>\<open>changeInterface\<close> called with the empty name or the
  selected interface returns at once: no request, no change of state. Called with another
  name while the page shows the sniffer running, it issues the stop action and then the
  set-interface action; when that is accepted it goes on to the start action, so the
  control actions are stop, set-interface, start in this order, and when the start is not
  confirmed the page shows the sniffer stopped at the end. When the set-interface action
  is rejected, stop and set-interface are the only control actions and the failure is
  shown in an alert.
\<close>

theorem changeInterface_actions:
  "(newInterface = [] \<or> newInterface = selectedInterface s \<longrightarrow>
      run R (changeInterface br (render conn s) newInterface) s = (Inr (), s))
   \<and> (newInterface \<noteq> [] \<and> newInterface \<noteq> selectedInterface s \<and> isMonitoring s
        \<and> interface_reply R (Suc (length (requests s))) newInterface = Inr () \<longrightarrow>
        filter isControl (drop (length (requests s))
            (requests (snd (run R (changeInterface br (render conn s) newInterface) s))))
          = [PostStop, PostInterface newInterface, PostStart]
        \<and> (\<not> startConfirmed R (length (requests s) + 3) \<longrightarrow>
             \<not> isMonitoring (snd (run R (changeInterface br (render conn s) newInterface) s))))
   \<and> (\<forall>e. newInterface \<noteq> [] \<and> newInterface \<noteq> selectedInterface s \<and> isMonitoring s
        \<and> interface_reply R (Suc (length (requests s))) newInterface = Inl e \<longrightarrow>
        filter isControl (drop (length (requests s))
            (requests (snd (run R (changeInterface br (render conn s) newInterface) s))))
          = [PostStop, PostInterface newInterface]
        \<and> alerts (snd (run R (changeInterface br (render conn s) newInterface) s))
          = alerts (snd (run R stopMonitoring s)) @ [InterfaceFailed (errorText e)])"
proof -
  let ?cl = "render conn s"
  let ?s' = "snd (run R (changeInterface br ?cl newInterface) s)"
  let ?n = "length (requests s)"
  have same: "newInterface = [] \<or> newInterface = selectedInterface s \<longrightarrow>
      run R (changeInterface br ?cl newInterface) s = (Inr (), s)"
    using changeInterface_same [of newInterface ?cl R br s] by (simp add: render_def)
  have accepted: "newInterface \<noteq> [] \<and> newInterface \<noteq> selectedInterface s \<and> isMonitoring s
        \<and> interface_reply R (Suc ?n) newInterface = Inr () \<longrightarrow>
        filter isControl (drop ?n (requests ?s')) = [PostStop, PostInterface newInterface, PostStart]
        \<and> (\<not> startConfirmed R (?n + 3) \<longrightarrow> \<not> isMonitoring ?s')"
  proof
    assume a: "newInterface \<noteq> [] \<and> newInterface \<noteq> selectedInterface s \<and> isMonitoring s
        \<and> interface_reply R (Suc ?n) newInterface = Inr ()"
    then have pre: "newInterface \<noteq> []" "newInterface \<noteq> c_selectedInterface ?cl" "c_isMonitoring ?cl"
      by (simp_all add: render_def)
    from a have ok: "interface_reply R (Suc ?n) newInterface = Inr ()" by simp
    have "filter isControl (drop ?n (requests ?s')) = [PostStop, PostInterface newInterface, PostStart]"
      by (simp add: changeInterface_running [OF pre] ok Let_def startMonitoring_requests
            stopped_requests issue_def split: sum.splits)
    moreover have "\<not> startConfirmed R (?n + 3) \<longrightarrow> \<not> isMonitoring ?s'"
      by (simp add: changeInterface_running [OF pre] ok Let_def startMonitoring_phase
            stopped_requests issue_def startConfirmed_def eval_nat_numeral split: sum.splits)
    ultimately show "filter isControl (drop ?n (requests ?s')) = [PostStop, PostInterface newInterface, PostStart]
        \<and> (\<not> startConfirmed R (?n + 3) \<longrightarrow> \<not> isMonitoring ?s')"
      by (rule conjI)
  qed
  have rejected: "\<forall>e. newInterface \<noteq> [] \<and> newInterface \<noteq> selectedInterface s \<and> isMonitoring s
        \<and> interface_reply R (Suc ?n) newInterface = Inl e \<longrightarrow>
        filter isControl (drop ?n (requests ?s')) = [PostStop, PostInterface newInterface]
        \<and> alerts ?s' = alerts (snd (run R stopMonitoring s)) @ [InterfaceFailed (errorText e)]"
  proof (intro allI impI)
    fix e
    assume a: "newInterface \<noteq> [] \<and> newInterface \<noteq> selectedInterface s \<and> isMonitoring s
        \<and> interface_reply R (Suc ?n) newInterface = Inl e"
    then have pre: "newInterface \<noteq> []" "newInterface \<noteq> c_selectedInterface ?cl" "c_isMonitoring ?cl"
      by (simp_all add: render_def)
    from a have no: "interface_reply R (Suc ?n) newInterface = Inl e" by simp
    show "filter isControl (drop ?n (requests ?s')) = [PostStop, PostInterface newInterface]
        \<and> alerts ?s' = alerts (snd (run R stopMonitoring s)) @ [InterfaceFailed (errorText e)]"
      by (simp add: changeInterface_running [OF pre] no Let_def stopped_requests issue_def)
  qed
  from same accepted rejected show ?thesis by blast
qed

theorem changeInterface_actions_witness:
  "isMonitoring monitoringPage \<and> ''eth1'' \<noteq> selectedInterface monitoringPage
   \<and> interface_reply notStarting (Suc (length (requests monitoringPage))) ''eth1'' = Inr ()
   \<and> \<not> startConfirmed notStarting (length (requests monitoringPage) + 3)
   \<and> filter isControl (requests (snd (run notStarting
         (changeInterface sampleBrowser (render True monitoringPage) ''eth1'') monitoringPage)))
       = [PostStop, PostInterface ''eth1'', PostStart]
   \<and> \<not> isMonitoring (snd (run notStarting
         (changeInterface sampleBrowser (render True monitoringPage) ''eth1'') monitoringPage))
   \<and> run notStarting (changeInterface sampleBrowser (render True monitoringPage) ''eth0'') monitoringPage
       = (Inr (), monitoringPage)"
  using changeInterface_actions [of "''eth1''" monitoringPage notStarting sampleBrowser True]
        changeInterface_actions [of "''eth0''" monitoringPage notStarting sampleBrowser True]
  by (simp add: monitoringPage_def idlePage_def initialPage_def notStarting_def obliging_def
        startConfirmed_def polledRunning_def healthOf_def)

subsection \<open>Overlapping operations\<close>

text \<open>
  On an idle page a start is called, and while it waits for the history a change of
  interface is called: both are in flight, and the set-interface action goes out between
  the requests of the start. When that action is answered the change of interface runs
  to its end, with the start still in flight.
\<close>

theorem operations_overlap:
  "inFlight idleSession = []
   \<and> length (inFlight (invoke sampleBrowser True Start idleSession)) = 1
   \<and> length (inFlight (invoke sampleBrowser True (ChangeInterface ''eth1'')
                (invoke sampleBrowser True Start idleSession))) = 2
   \<and> requests (view (invoke sampleBrowser True (ChangeInterface ''eth1'')
                (invoke sampleBrowser True Start idleSession))) = [GetHistory, PostInterface ''eth1'']
   \<and> map_option (\<lambda>c. (length (inFlight c), alerts (view c), selectedInterface (view c)))
         (settle 1 (InterfaceReply (Inr ()))
            (invoke sampleBrowser True (ChangeInterface ''eth1'')
               (invoke sampleBrowser True Start idleSession)))
       = Some (1, [InterfaceChanged ''eth1''], ''eth1'')"
  by (simp add: idleSession_def invoke_def settle_def render_def idlePage_def initialPage_def
        startMonitoring_def changeInterface_def refreshStats_def getHistory_def postInterface_def
        issue_def settled_def setState_def alert_def)

text \<open>The first request of each operation goes out during the call.\<close>

lemma advance_startMonitoring:
  "\<exists>p. advance (startMonitoring br cl) s = (Some p, issue GetHistory s)"
  by (simp add: startMonitoring_def refreshStats_def getHistory_def)

lemma advance_stopMonitoring:
  "\<exists>p. advance stopMonitoring s = (Some p, issue PostStop s)"
  by (simp add: stopMonitoring_def postStop_def)

lemma advance_changeInterface:
  "n \<noteq> [] \<Longrightarrow> n \<noteq> c_selectedInterface cl \<Longrightarrow>
   \<exists>p. advance (changeInterface br cl n) s =
         (Some p, issue (if c_isMonitoring cl then PostStop else PostInterface n) s)"
  by (simp add: changeInterface_def stopMonitoring_def postStop_def postInterface_def)

text \<open>
  Claim C1, as the code has it. There is no operation lock: a call of start, of stop, or
  of a change to another interface is never rejected. Whatever is in flight, the call
  issues its first request at once and the operation joins the operations in flight,
  which stay as they are.
\<close>

theorem operations_never_rejected:
  "(\<exists>p. invoke br conn Start c =
          c\<lparr>view := issue GetHistory (view c), inFlight := inFlight c @ [p]\<rparr>)
   \<and> (\<exists>p. invoke br conn Stop c =
          c\<lparr>view := issue PostStop (view c), inFlight := inFlight c @ [p]\<rparr>)
   \<and> (n \<noteq> [] \<and> n \<noteq> selectedInterface (view c) \<longrightarrow>
        (\<exists>p. invoke br conn (ChangeInterface n) c =
           c\<lparr>view := issue (if isMonitoring (view c) then PostStop else PostInterface n) (view c),
             inFlight := inFlight c @ [p]\<rparr>))"
proof -
  obtain p where "advance (startMonitoring br (render conn (view c))) (view c)
                    = (Some p, issue GetHistory (view c))"
    using advance_startMonitoring by blast
  then have "invoke br conn Start c =
          c\<lparr>view := issue GetHistory (view c), inFlight := inFlight c @ [p]\<rparr>"
    by (simp add: invoke_def)
  then have start: "\<exists>p. invoke br conn Start c =
          c\<lparr>view := issue GetHistory (view c), inFlight := inFlight c @ [p]\<rparr>"
    by (rule exI)
  obtain q where "advance stopMonitoring (view c) = (Some q, issue PostStop (view c))"
    using advance_stopMonitoring by blast
  then have "invoke br conn Stop c =
          c\<lparr>view := issue PostStop (view c), inFlight := inFlight c @ [q]\<rparr>"
    by (simp add: invoke_def)
  then have stop: "\<exists>p. invoke br conn Stop c =
          c\<lparr>view := issue PostStop (view c), inFlight := inFlight c @ [p]\<rparr>"
    by (rule exI)
  have change: "n \<noteq> [] \<and> n \<noteq> selectedInterface (view c) \<longrightarrow>
        (\<exists>p. invoke br conn (ChangeInterface n) c =
           c\<lparr>view := issue (if isMonitoring (view c) then PostStop else PostInterface n) (view c),
             inFlight := inFlight c @ [p]\<rparr>)"
  proof
    assume a: "n \<noteq> [] \<and> n \<noteq> selectedInterface (view c)"
    then have "n \<noteq> []" "n \<noteq> c_selectedInterface (render conn (view c))"
      by (simp_all add: render_def)
    from advance_changeInterface [OF this, of br "view c"]
    obtain r where "advance (changeInterface br (render conn (view c)) n) (view c) =
         (Some r, issue (if c_isMonitoring (render conn (view c)) then PostStop else PostInterface n) (view c))"
      by blast
    then have "invoke br conn (ChangeInterface n) c =
           c\<lparr>view := issue (if isMonitoring (view c) then PostStop else PostInterface n) (view c),
             inFlight := inFlight c @ [r]\<rparr>"
      by (simp add: invoke_def render_def)
    then show "\<exists>p. invoke br conn (ChangeInterface n) c =
           c\<lparr>view := issue (if isMonitoring (view c) then PostStop else PostInterface n) (view c),
             inFlight := inFlight c @ [p]\<rparr>"
      by (rule exI)
  qed
  from start stop change show ?thesis by blast
qed

theorem operations_never_rejected_witness:
  "''eth1'' \<noteq> [] \<and> ''eth1'' \<noteq> selectedInterface (view (invoke sampleBrowser True Start idleSession))
   \<and> length (inFlight (invoke sampleBrowser True Stop (invoke sampleBrowser True Start idleSession))) = 2
   \<and> length (inFlight (invoke sampleBrowser True (ChangeInterface ''eth1'')
                           (invoke sampleBrowser True Start idleSession))) = 2"
  using operations_never_rejected
          [of sampleBrowser True "invoke sampleBrowser True Start idleSession" "''eth1''"]
        operations_never_rejected [of sampleBrowser True idleSession "''eth1''"]
  by (auto simp: idleSession_def idlePage_def initialPage_def issue_def)

section \<open>Properties of the Channel Manager\<close>

subsection \<open>The set of handlers\<close>

lemma entries_Nil: "entries [] = []"
  by (simp add: entries_def)

lemma entries_Cons:
  "entries (e # sd) = (case e of None \<Rightarrow> entries sd | Some h \<Rightarrow> h # entries sd)"
  by (simp add: entries_def split: option.splits)

lemma entries_append: "entries (xs @ ys) = entries xs @ entries ys"
  by (induction xs) (simp_all add: entries_Nil entries_Cons split: option.splits)

lemma set_entries: "set (entries sd) = {h. Some h \<in> set sd}"
  by (induction sd) (auto simp: entries_Nil entries_Cons split: option.splits)

lemma forEach_quiet:
  assumes "\<forall>h \<in> set (entries sd). behaviour h d = []"
      and "length sd - i \<le> fuel"
  shows "forEach fuel behaviour d i sd called = Some (sd, called @ entries (drop i sd))"
  using assms(2)
proof (induction fuel arbitrary: i called)
  case 0
  then show ?case by (simp add: entries_Nil)
next
  case (Suc fuel)
  show ?case
  proof (cases "length sd \<le> i")
    case True
    then show ?thesis by (simp add: entries_Nil)
  next
    case False
    then have lt: "i < length sd" by simp
    have dr: "drop i sd = sd ! i # drop (Suc i) sd"
      using lt by (simp add: Cons_nth_drop_Suc)
    have fu: "length sd - Suc i \<le> fuel" using Suc.prems by simp
    show ?thesis
    proof (cases "sd ! i")
      case None
      with lt dr Suc.IH [OF fu] show ?thesis by (simp add: entries_Cons)
    next
      case (Some h)
      have "Some h \<in> set sd" using lt Some by (metis nth_mem)
      then have "behaviour h d = []" using assms(1) by (simp add: set_entries)
      with lt dr Some Suc.IH [OF fu] show ?thesis by (simp add: entries_Cons)
    qed
  qed
qed

lemma distinct_entries_setAdd:
  "distinct (entries sd) \<Longrightarrow> distinct (entries (setAdd h sd))"
  by (simp add: setAdd_def entries_append entries_Cons entries_Nil set_entries)

lemma entries_setDelete: "entries (setDelete h sd) = removeAll h (entries sd)"
  by (induction sd) (auto simp: setDelete_def entries_Nil entries_Cons split: option.splits)

lemma distinct_entries_setDelete:
  "distinct (entries sd) \<Longrightarrow> distinct (entries (setDelete h sd))"
  by (simp add: entries_setDelete distinct_removeAll)

lemma connect_noop:
  assumes "wsRef c = Some i" and "connectingOrOpen c i"
  shows "connect urlOk c = c"
  using assms by (auto simp: connect_def connectingOrOpen_def)

lemma count_list_distinct:
  "distinct xs \<Longrightarrow> x \<in> set xs \<Longrightarrow> count_list xs x = 1"
  by (induction xs) (auto simp: count_list_0_iff)

lemma onmessage_quiet:
  assumes "\<forall>h \<in> set (entries (messageHandlersRef c)). behaviour h d = []"
      and "length (messageHandlersRef c) \<le> fuel"
  shows "onmessage fuel behaviour (Some d) c =
           Some (c\<lparr>lastMessage := Some d,
                   calls := calls c @ map (\<lambda>h. (h, d)) (entries (messageHandlersRef c))\<rparr>)"
proof -
  have "forEach fuel behaviour d 0 (messageHandlersRef c) []
          = Some (messageHandlersRef c, [] @ entries (drop 0 (messageHandlersRef c)))"
    by (rule forEach_quiet) (use assms in simp_all)
  then show ?thesis by (simp add: onmessage_def)
qed



lemma solo_connect: "solo c \<Longrightarrow> solo (connect urlOk c)"
  by (auto simp: solo_def connect_def connectingOrOpen_def readyStateOf_def nth_append
           split: option.splits if_splits)

lemma solo_clearReconnect: "solo c \<Longrightarrow> solo (clearReconnect c)"
  by (auto simp: solo_def clearReconnect_def connectingOrOpen_def readyStateOf_def
           split: option.splits)

lemma closing_not_live: "closing r \<noteq> OPEN" "closing r \<noteq> CONNECTING"
  by (cases r; simp)+

lemma solo_disconnect: "solo c \<Longrightarrow> solo (disconnect c)"
  by (auto simp: solo_def disconnect_def clearReconnect_def connectingOrOpen_def readyStateOf_def
        Let_def nth_list_update closing_not_live split: option.splits if_splits)


lemma distinct_entries_perform:
  "distinct (entries sd) \<Longrightarrow> distinct (entries (perform a sd))"
  by (cases a) (simp_all add: distinct_entries_setAdd distinct_entries_setDelete)

lemma distinct_entries_fold_perform:
  "distinct (entries sd) \<Longrightarrow> distinct (entries (fold perform as sd))"
  by (induction as arbitrary: sd) (simp_all add: distinct_entries_perform)

lemma distinct_entries_forEach:
  "forEach fuel behaviour d i sd called = Some (sd', called') \<Longrightarrow>
   distinct (entries sd) \<Longrightarrow> distinct (entries sd')"
proof (induction fuel arbitrary: i sd called)
  case 0
  then show ?case by (simp split: if_splits)
next
  case (Suc fuel)
  show ?case
  proof (cases "length sd \<le> i")
    case True
    with Suc.prems show ?thesis by simp
  next
    case False
    show ?thesis
    proof (cases "sd ! i")
      case None
      with False Suc.prems Suc.IH [of "Suc i" sd called] show ?thesis by simp
    next
      case (Some h)
      with False Suc.prems
        Suc.IH [of "Suc i" "fold perform (behaviour h d) sd" "called @ [h]"]
      show ?thesis by (simp add: distinct_entries_fold_perform)
    qed
  qed
qed

lemma handlers_connect: "messageHandlersRef (connect urlOk c) = messageHandlersRef c"
  by (simp add: connect_def)

lemma handlers_disconnect: "messageHandlersRef (disconnect c) = messageHandlersRef c"
  by (simp add: disconnect_def clearReconnect_def Let_def split: option.splits)

lemma sound_step:
  assumes "step urlOk fuel behaviour e c = Some c'" and "sound c"
  shows "sound c'"
proof (cases e)
  case Connect
  with assms show ?thesis by (auto simp: sound_def solo_connect handlers_connect)
next
  case Disconnect
  with assms show ?thesis
    by (auto simp: sound_def solo_disconnect handlers_disconnect)
next
  case (Subscribed h)
  with assms show ?thesis
    by (auto simp: sound_def subscribe_def distinct_entries_setAdd solo_def connectingOrOpen_def
          readyStateOf_def)
next
  case (Unsubscribed h)
  with assms show ?thesis
    by (auto simp: sound_def unsubscribe_def distinct_entries_setDelete solo_def
          connectingOrOpen_def readyStateOf_def)
next
  case (Opened i)
  with assms show ?thesis
    by (auto simp: sound_def onopen_def clearReconnect_def solo_def connectingOrOpen_def
          readyStateOf_def nth_list_update split: if_splits option.splits)
next
  case (Errored i)
  with assms show ?thesis
    by (auto simp: sound_def onerror_def solo_def connectingOrOpen_def readyStateOf_def
          split: if_splits)
next
  case (Closed i)
  with assms show ?thesis
    by (auto simp: sound_def onclose_def solo_def connectingOrOpen_def readyStateOf_def
          nth_list_update split: if_splits)
next
  case (Message i payload)
  show ?thesis
  proof (cases payload)
    case None
    with Message assms show ?thesis by (auto simp: onmessage_def split: if_splits)
  next
    case (Some d)
    with Message assms obtain sd called
      where fe: "forEach fuel behaviour d 0 (messageHandlersRef c) [] = Some (sd, called)"
        and c': "c' = c\<lparr>lastMessage := Some d, messageHandlersRef := sd,
                          calls := calls c @ map (\<lambda>h. (h, d)) called\<rparr>"
      by (auto simp: onmessage_def split: if_splits option.splits)
    from distinct_entries_forEach [OF fe] assms(2) have "distinct (entries sd)"
      by (simp add: sound_def)
    with assms(2) c' show ?thesis
      by (simp add: sound_def solo_def connectingOrOpen_def readyStateOf_def)
  qed
next
  case (Timeout t)
  with assms obtain "t \<in> set (timers c)"
    and c': "c' = connect urlOk (c\<lparr>timers := removeAll t (timers c)\<rparr>)"
    by (auto split: if_splits)
  have "solo (c\<lparr>timers := removeAll t (timers c)\<rparr>)"
    using assms(2) by (simp add: sound_def solo_def connectingOrOpen_def readyStateOf_def)
  from solo_connect [OF this] assms(2) c' show ?thesis
    by (simp add: sound_def handlers_connect)
qed

lemma sound_steps:
  "steps urlOk fuel behaviour es c = Some c' \<Longrightarrow> sound c \<Longrightarrow> sound c'"
proof (induction es arbitrary: c)
  case Nil
  then show ?case by simp
next
  case (Cons e es)
  from Cons.prems(1) obtain c1 where s1: "step urlOk fuel behaviour e c = Some c1"
    and rest: "steps urlOk fuel behaviour es c1 = Some c'"
    by (auto split: option.splits)
  from sound_step [OF s1 Cons.prems(2)] Cons.IH [OF rest] show ?case by blast
qed

lemma sound_initialChannel: "sound initialChannel"
  by (simp add: sound_def solo_def connectingOrOpen_def readyStateOf_def initialChannel_def
        entries_Nil)

subsection \<open>One transport\<close>

text \<open>
  Claim C9. \<^verbatim>\<open>connect\<close> called while the socket in \<^verbatim>\<open>wsRef\<close> is connecting or open
  returns with the state as it was, however often it is called: no socket is
  constructed. In every state the provider reaches from its start, at most one socket
  is connecting or open, and a message that arrives on the open socket after two such
  calls is passed to every subscribed handler exactly once, in the order of
  subscription (for handlers that leave the set alone while they are called, and
  fuel for one pass over the set).
\<close>

theorem connect_idempotent:
  "(wsRef c = Some i \<and> connectingOrOpen c i \<longrightarrow>
      connect urlOk c = c \<and> connect urlOk (connect urlOk c) = c)
   \<and> (steps urlOk fuel behaviour es initialChannel = Some c \<longrightarrow>
        (\<forall>j k. connectingOrOpen c j \<and> connectingOrOpen c k \<longrightarrow> j = k)
        \<and> (\<forall>j d. readyStateOf c j = Some OPEN
               \<and> (\<forall>h \<in> set (entries (messageHandlersRef c)). behaviour h d = [])
               \<and> length (messageHandlersRef c) \<le> fuel \<longrightarrow>
               (\<exists>c'. step urlOk fuel behaviour (Message j (Some d)) (connect urlOk (connect urlOk c))
                        = Some c'
                    \<and> calls c' = calls c @ map (\<lambda>h. (h, d)) (entries (messageHandlersRef c))
                    \<and> (\<forall>h \<in> set (entries (messageHandlersRef c)).
                          count_list (map fst (drop (length (calls c)) (calls c'))) h = 1))))"
proof -
  have noop: "wsRef c = Some i \<and> connectingOrOpen c i \<longrightarrow>
      connect urlOk c = c \<and> connect urlOk (connect urlOk c) = c"
    by (simp add: connect_noop)
  have reach: "steps urlOk fuel behaviour es initialChannel = Some c \<longrightarrow>
        (\<forall>j k. connectingOrOpen c j \<and> connectingOrOpen c k \<longrightarrow> j = k)
        \<and> (\<forall>j d. readyStateOf c j = Some OPEN
               \<and> (\<forall>h \<in> set (entries (messageHandlersRef c)). behaviour h d = [])
               \<and> length (messageHandlersRef c) \<le> fuel \<longrightarrow>
               (\<exists>c'. step urlOk fuel behaviour (Message j (Some d)) (connect urlOk (connect urlOk c))
                        = Some c'
                    \<and> calls c' = calls c @ map (\<lambda>h. (h, d)) (entries (messageHandlersRef c))
                    \<and> (\<forall>h \<in> set (entries (messageHandlersRef c)).
                          count_list (map fst (drop (length (calls c)) (calls c'))) h = 1)))"
  proof
    assume "steps urlOk fuel behaviour es initialChannel = Some c"
    from sound_steps [OF this sound_initialChannel]
    have solo: "solo c" and dist: "distinct (entries (messageHandlersRef c))"
      by (simp_all add: sound_def)
    have one: "\<forall>j k. connectingOrOpen c j \<and> connectingOrOpen c k \<longrightarrow> j = k"
      using solo by (metis option.inject solo_def)
    have once: "\<forall>j d. readyStateOf c j = Some OPEN
               \<and> (\<forall>h \<in> set (entries (messageHandlersRef c)). behaviour h d = [])
               \<and> length (messageHandlersRef c) \<le> fuel \<longrightarrow>
               (\<exists>c'. step urlOk fuel behaviour (Message j (Some d)) (connect urlOk (connect urlOk c))
                        = Some c'
                    \<and> calls c' = calls c @ map (\<lambda>h. (h, d)) (entries (messageHandlersRef c))
                    \<and> (\<forall>h \<in> set (entries (messageHandlersRef c)).
                          count_list (map fst (drop (length (calls c)) (calls c'))) h = 1))"
    proof (intro allI impI)
      fix j d
      assume a: "readyStateOf c j = Some OPEN
               \<and> (\<forall>h \<in> set (entries (messageHandlersRef c)). behaviour h d = [])
               \<and> length (messageHandlersRef c) \<le> fuel"
      then have lj: "connectingOrOpen c j" by (simp add: connectingOrOpen_def)
      with solo have "wsRef c = Some j" by (simp add: solo_def)
      from connect_noop [OF this lj] have same: "connect urlOk (connect urlOk c) = c" by simp
      let ?c' = "c\<lparr>lastMessage := Some d,
                    calls := calls c @ map (\<lambda>h. (h, d)) (entries (messageHandlersRef c))\<rparr>"
      have "onmessage fuel behaviour (Some d) c = Some ?c'"
        by (rule onmessage_quiet) (use a in simp_all)
      with a same have st: "step urlOk fuel behaviour (Message j (Some d))
                              (connect urlOk (connect urlOk c)) = Some ?c'"
        by simp
      have cnt: "\<forall>h \<in> set (entries (messageHandlersRef c)).
                   count_list (map fst (drop (length (calls c)) (calls ?c'))) h = 1"
        using dist by (simp add: comp_def count_list_distinct)
      from st cnt show "\<exists>c'. step urlOk fuel behaviour (Message j (Some d))
                                (connect urlOk (connect urlOk c)) = Some c'
                    \<and> calls c' = calls c @ map (\<lambda>h. (h, d)) (entries (messageHandlersRef c))
                    \<and> (\<forall>h \<in> set (entries (messageHandlersRef c)).
                          count_list (map fst (drop (length (calls c)) (calls c'))) h = 1)"
        by (intro exI [of _ ?c']) simp
    qed
    from one once show "(\<forall>j k. connectingOrOpen c j \<and> connectingOrOpen c k \<longrightarrow> j = k)
        \<and> (\<forall>j d. readyStateOf c j = Some OPEN
               \<and> (\<forall>h \<in> set (entries (messageHandlersRef c)). behaviour h d = [])
               \<and> length (messageHandlersRef c) \<le> fuel \<longrightarrow>
               (\<exists>c'. step urlOk fuel behaviour (Message j (Some d)) (connect urlOk (connect urlOk c))
                        = Some c'
                    \<and> calls c' = calls c @ map (\<lambda>h. (h, d)) (entries (messageHandlersRef c))
                    \<and> (\<forall>h \<in> set (entries (messageHandlersRef c)).
                          count_list (map fst (drop (length (calls c)) (calls c'))) h = 1)))"
      by (rule conjI)
  qed
  from noop reach show ?thesis by (rule conjI)
qed

theorem connect_idempotent_witness:
  "wsRef twoSubscribers = Some 0 \<and> connectingOrOpen twoSubscribers 0
   \<and> steps True 2 quiet [Connect, Subscribed 0, Subscribed 1, Opened 0] initialChannel
        = Some twoSubscribers
   \<and> readyStateOf twoSubscribers 0 = Some OPEN
   \<and> entries (messageHandlersRef twoSubscribers) = [0, 1]
   \<and> quiet 0 (7::nat) = [] \<and> quiet 1 (7::nat) = []
   \<and> length (messageHandlersRef twoSubscribers) \<le> 2
   \<and> connect True (connect True twoSubscribers) = twoSubscribers
   \<and> (\<exists>c'. step True 2 quiet (Message 0 (Some 7)) (connect True (connect True twoSubscribers))
               = Some c'
            \<and> calls c' = [(0, 7), (1, 7)])"
proof -
  have cur: "wsRef twoSubscribers = Some 0 \<and> connectingOrOpen twoSubscribers 0"
    by (simp add: twoSubscribers_def connectingOrOpen_def readyStateOf_def)
  have reach: "steps True 2 quiet [Connect, Subscribed 0, Subscribed 1, Opened 0] initialChannel
                 = Some twoSubscribers"
    by (simp add: twoSubscribers_def initialChannel_def readyStateOf_def connect_def
          subscribe_def setAdd_def onopen_def clearReconnect_def)
  have opened: "readyStateOf twoSubscribers 0 = Some OPEN"
    by (simp add: twoSubscribers_def readyStateOf_def)
  have still: "\<forall>h \<in> set (entries (messageHandlersRef twoSubscribers)). quiet h (7::nat) = []"
    by (simp add: quiet_def)
  have fuel: "length (messageHandlersRef twoSubscribers) \<le> 2"
    by (simp add: twoSubscribers_def)
  have subs: "entries (messageHandlersRef twoSubscribers) = [0, 1]"
    by (simp add: twoSubscribers_def entries_def)
  have before: "calls twoSubscribers = []"
    by (simp add: twoSubscribers_def)
  note inst = connect_idempotent [of twoSubscribers 0 True 2 quiet
                 "[Connect, Subscribed 0, Subscribed 1, Opened 0]"]
  from inst cur have noop: "connect True (connect True twoSubscribers) = twoSubscribers"
    by blast
  from inst reach opened still fuel
  obtain c' where "step True 2 quiet (Message 0 (Some 7)) (connect True (connect True twoSubscribers))
                     = Some c'"
    and "calls c' = calls twoSubscribers
                      @ map (\<lambda>h. (h, 7)) (entries (messageHandlersRef twoSubscribers))"
    by blast
  then have once: "\<exists>c'. step True 2 quiet (Message 0 (Some 7))
                           (connect True (connect True twoSubscribers)) = Some c'
                        \<and> calls c' = [(0, 7), (1, 7)]"
    by (simp add: subs before)
  have each: "quiet 0 (7::nat) = [] \<and> quiet 1 (7::nat) = []"
    by (simp add: quiet_def)
  from cur reach opened subs each fuel noop once show ?thesis by blast
qed

subsection \<open>Disconnecting\<close>

text \<open>
  Claim C2, on the code. The provider connects, the socket opens, and \<^verbatim>\<open>disconnect\<close>
  is called: no timeout is pending, the socket is closing and \<^verbatim>\<open>wsRef\<close> is empty.
  The close event of that socket then runs \<^verbatim>\<open>onclose\<close>, which is still its handler
  and sets a reconnect timeout; when the timeout fires, \<^verbatim>\<open>connect\<close> constructs a
  second socket.
\<close>

theorem disconnect_then_close_reconnects:
  "steps True 0 quiet [Connect, Opened 0, Disconnect] (initialChannel :: nat channel)
     = Some \<lparr>isConnected = False, lastMessage = None, wsRef = None, reconnectTimeoutRef = None,
             messageHandlersRef = [], sockets = [CLOSING], timers = [], timersSet = 0, calls = []\<rparr>
   \<and> steps True 0 quiet [Connect, Opened 0, Disconnect, Closed 0] (initialChannel :: nat channel)
     = Some \<lparr>isConnected = False, lastMessage = None, wsRef = None, reconnectTimeoutRef = Some 1,
             messageHandlersRef = [], sockets = [CLOSED], timers = [1], timersSet = 1, calls = []\<rparr>
   \<and> steps True 0 quiet [Connect, Opened 0, Disconnect, Closed 0, Timeout 1]
         (initialChannel :: nat channel)
     = Some \<lparr>isConnected = False, lastMessage = None, wsRef = Some 1, reconnectTimeoutRef = Some 1,
             messageHandlersRef = [], sockets = [CLOSED, CONNECTING], timers = [], timersSet = 1,
             calls = []\<rparr>"
  by (simp add: initialChannel_def connect_def readyStateOf_def onopen_def clearReconnect_def
        disconnect_def onclose_def)

subsection \<open>Dispatch\<close>

text \<open>
  With the handlers 0 and 1 subscribed, a message is dispatched. When handler 0
  unsubscribes handler 1 during its call, handler 1 does not receive the message; when
  handler 0 subscribes a handler 2, that one receives it too.
\<close>

theorem dispatch_reads_live_set:
  "entries (messageHandlersRef twoSubscribers) = [0, 1]
   \<and> map_option calls (step True 2 firstDropsSecond (Message 0 (Some 7)) twoSubscribers)
       = Some [(0, 7)]
   \<and> map_option calls (step True 3 firstAddsThird (Message 0 (Some 7)) twoSubscribers)
       = Some [(0, 7), (1, 7), (2, 7)]"
  by (simp add: twoSubscribers_def entries_def readyStateOf_def onmessage_def
        firstDropsSecond_def firstAddsThird_def setDelete_def setAdd_def
        numeral_2_eq_2 numeral_3_eq_3)

text \<open>
  Claim C3, as the code has it. Dispatch iterates over the live set of handlers and
  takes no snapshot. For every message during whose dispatch no subscribed handler
  subscribes or unsubscribes, the dispatch ends, and the handlers that receive the
  message are the ones subscribed when it began, each once, in the order of
  subscription; the set is left as it was.
\<close>

theorem dispatch_to_unchanged_set:
  assumes "\<forall>h \<in> set (entries (messageHandlersRef c)). behaviour h d = []"
      and "length (messageHandlersRef c) \<le> fuel"
  shows "onmessage fuel behaviour (Some d) c =
           Some (c\<lparr>lastMessage := Some d,
                   calls := calls c @ map (\<lambda>h. (h, d)) (entries (messageHandlersRef c))\<rparr>)"
  using assms by (rule onmessage_quiet)

theorem dispatch_to_unchanged_set_witness:
  "entries (messageHandlersRef twoSubscribers) = [0, 1]
   \<and> quiet 0 (7::nat) = [] \<and> quiet 1 (7::nat) = []
   \<and> length (messageHandlersRef twoSubscribers) \<le> 2
   \<and> map_option calls (onmessage 2 quiet (Some 7) twoSubscribers) = Some [(0, 7), (1, 7)]"
proof -
  have q: "\<forall>h \<in> set (entries (messageHandlersRef twoSubscribers)). quiet h (7::nat) = []"
    by (simp add: quiet_def)
  have l: "length (messageHandlersRef twoSubscribers) \<le> 2"
    by (simp add: twoSubscribers_def)
  from l dispatch_to_unchanged_set [of twoSubscribers quiet 7 2, OF q l] show ?thesis
    by (simp add: twoSubscribers_def entries_def quiet_def)
qed

end
